theory Spec2Isabelle
  imports Main "HOL-Library.Word" "HOL-Library.Sublist"
begin

unbundle bit_operations_syntax

section \<open>Common data: integers, byte buffers, the task\<close>

text \<open>
  The probes of \<^verbatim>\<open>internal/lsm/bpf\<close> work on fixed-width integers and fixed-size
  \<^verbatim>\<open>char\<close> arrays. \<^verbatim>\<open>u8\<close>, \<^verbatim>\<open>u16\<close>, \<^verbatim>\<open>u32\<close>, \<^verbatim>\<open>u64\<close> are words; \<^verbatim>\<open>s32\<close> is a 32-bit word
  read with \<open>sint\<close>; an \<^verbatim>\<open>int\<close> that a function returns is an \<open>int\<close>.

  A \<^verbatim>\<open>char\<close> buffer is the list of its leading bytes; a byte that the list does
  not give is NUL, so that a list of 256 bytes is any content of a
  \<^verbatim>\<open>char[256]\<close>, and a shorter list is a NUL-padded one. No probe reads a buffer
  beyond its declared size. Bytes are compared for equality, and the range test
  \<^verbatim>\<open>c >= '0' && c <= '9'\<close> is the same on signed and on unsigned bytes.
\<close>

type_synonym u8 = "8 word"
type_synonym u16 = "16 word"
type_synonym u32 = "32 word"
type_synonym u64 = "64 word"

definition NUL :: char where
  "NUL = CHR 0x00"

definition byte_at :: "string \<Rightarrow> nat \<Rightarrow> char" where
  "byte_at buf i = (if i < length buf then buf ! i else NUL)"

text \<open>
  What the helpers \<^verbatim>\<open>bpf_get_current_cgroup_id\<close>, \<^verbatim>\<open>bpf_get_current_pid_tgid\<close>,
  \<^verbatim>\<open>bpf_get_current_comm\<close> and \<^verbatim>\<open>bpf_ktime_get_ns\<close> give for the current task.
\<close>

record task =
  cgroup_id :: u64
  pid_tgid :: u64
  comm :: string
  ktime :: u64

text \<open>\<^verbatim>\<open>policy_result ? 0 : -13\<close>: the verdict returned to the kernel.\<close>

definition verdict :: "int \<Rightarrow> int" where
  "verdict policy_result = (if policy_result \<noteq> 0 then 0 else -13)"

section \<open>Prefix comparison (lsm\_open.bpf.c and lsm\_exec.bpf.c, same text)\<close>

function starts_with_loop :: "string \<Rightarrow> string \<Rightarrow> nat \<Rightarrow> nat \<Rightarrow> int" where
  "starts_with_loop s p max_len i =
     (if i < 64 then
        (if i \<ge> max_len then 1
         else if byte_at s i \<noteq> byte_at p i then 0
         else starts_with_loop s p max_len (i + 1))
      else 1)"
  by pat_completeness auto
termination
  by (relation "measure (\<lambda>(s, p, max_len, i). 64 - i)") auto

declare starts_with_loop.simps [simp del]

definition simple_string_starts_with :: "string \<Rightarrow> string \<Rightarrow> u32 \<Rightarrow> int" where
  "simple_string_starts_with s p max_len =
     starts_with_loop s p (unat (if max_len > 64 then 64 else max_len)) 0"

section \<open>File open (lsm\_open.bpf.c)\<close>

definition OP_OPEN :: u32 where "OP_OPEN = 0"
definition OP_OPEN_RO :: u32 where "OP_OPEN_RO = 1"
definition OP_OPEN_RW :: u32 where "OP_OPEN_RW = 2"

definition FMODE_READ :: u32 where "FMODE_READ = 0x1"
definition FMODE_WRITE :: u32 where "FMODE_WRITE = 0x2"

record open_event =
  oe_pid :: u32
  oe_tgid :: u32
  oe_timestamp :: u64
  oe_cgroup_id :: u64
  oe_comm :: string
  oe_path :: string
  oe_operation :: u32
  oe_result :: int

record policy_rule =
  action :: u32
  operation :: u32
  path_len :: u32
  path :: string
  is_directory :: u32

text \<open>
  The maps of the open domain. A lookup that returns a null pointer is \<open>None\<close>;
  the single-slot arrays are the value at key 0.
\<close>

record open_maps =
  target_cgroup :: "u64 option"
  allowed_cgroups :: "u64 \<rightharpoonup> u8"
  policy_rules :: "u32 \<rightharpoonup> policy_rule"
  num_rules :: "u32 option"
  default_policy :: "u32 option"

definition is_target_cgroup :: "open_maps \<Rightarrow> task \<Rightarrow> bool" where
  "is_target_cgroup m t =
     (case target_cgroup m of
        None \<Rightarrow> False
      | Some target_cgroup_id \<Rightarrow>
          if target_cgroup_id = 0 then False
          else (case allowed_cgroups m (cgroup_id t) of
                  None \<Rightarrow> False
                | Some allowed \<Rightarrow> allowed = 1))"

subsection \<open>Namespace file descriptors\<close>

definition nsfs_prefix :: "nat \<Rightarrow> (string \<times> nat) option" where
  "nsfs_prefix prefix_idx =
     (if prefix_idx = 0 then Some (''mnt:['', 5)
      else if prefix_idx = 1 then Some (''net:['', 5)
      else if prefix_idx = 2 then Some (''ipc:['', 5)
      else if prefix_idx = 3 then Some (''pid:['', 5)
      else if prefix_idx = 4 then Some (''uts:['', 5)
      else if prefix_idx = 5 then Some (''user:['', 6)
      else if prefix_idx = 6 then Some (''cgroup:['', 8)
      else if prefix_idx = 7 then Some (''time:['', 6)
      else None)"

function nsfs_prefix_loop :: "string \<Rightarrow> string \<Rightarrow> nat \<Rightarrow> nat \<Rightarrow> bool" where
  "nsfs_prefix_loop pth pfx prefix_len i =
     (if i < 8 then
        (if i \<ge> prefix_len then True
         else if byte_at pth i \<noteq> byte_at pfx i then False
         else nsfs_prefix_loop pth pfx prefix_len (i + 1))
      else True)"
  by pat_completeness auto
termination
  by (relation "measure (\<lambda>(pth, pfx, prefix_len, i). 8 - i)") auto

declare nsfs_prefix_loop.simps [simp del]

definition is_digit :: "char \<Rightarrow> bool" where
  "is_digit c = ((48::nat) \<le> of_char c \<and> of_char c \<le> (57::nat))"

text \<open>
  The digit scan returns \<open>True\<close> where the source returns \<^verbatim>\<open>true\<close> from
  \<^verbatim>\<open>is_nsfs_path\<close>, and \<open>False\<close> where the scan ends (a \<^verbatim>\<open>break\<close>, or 16 bytes seen).
\<close>

function nsfs_digit_loop :: "string \<Rightarrow> nat \<Rightarrow> bool \<Rightarrow> nat \<Rightarrow> bool" where
  "nsfs_digit_loop pth digit_pos found_digit i =
     (if i < 16 then
        (if digit_pos + i \<ge> 256 then False
         else
           let c = byte_at pth (digit_pos + i) in
           if is_digit c then nsfs_digit_loop pth digit_pos True (i + 1)
           else if c = CHR '']'' \<and> found_digit then True
           else if c = NUL then False
           else if c \<notin> set ''0123456789'' then False
           else nsfs_digit_loop pth digit_pos found_digit (i + 1))
      else False)"
  by pat_completeness auto
termination
  by (relation "measure (\<lambda>(pth, digit_pos, found_digit, i). 16 - i)") auto

declare nsfs_digit_loop.simps [simp del]

function nsfs_loop :: "string \<Rightarrow> nat \<Rightarrow> bool" where
  "nsfs_loop pth prefix_idx =
     (if prefix_idx < 8 then
        (case nsfs_prefix prefix_idx of
           None \<Rightarrow> nsfs_loop pth (prefix_idx + 1)
         | Some (pfx, prefix_len) \<Rightarrow>
             if nsfs_prefix_loop pth pfx prefix_len 0
                \<and> nsfs_digit_loop pth prefix_len False 0
             then True
             else nsfs_loop pth (prefix_idx + 1))
      else False)"
  by pat_completeness auto
termination
  by (relation "measure (\<lambda>(pth, prefix_idx). 8 - prefix_idx)") auto

declare nsfs_loop.simps [simp del]

definition is_nsfs_path :: "string \<Rightarrow> bool" where
  "is_nsfs_path pth = nsfs_loop pth 0"

subsection \<open>The open matcher\<close>

definition get_file_operation_type :: "u32 \<Rightarrow> u32" where
  "get_file_operation_type f_mode =
     (if f_mode AND FMODE_WRITE \<noteq> 0 then OP_OPEN_RW
      else if f_mode AND FMODE_READ \<noteq> 0 then OP_OPEN_RO
      else OP_OPEN)"

definition open_default :: "open_maps \<Rightarrow> int" where
  "open_default m = (case default_policy m of None \<Rightarrow> 0 | Some d \<Rightarrow> sint d)"

text \<open>
  One pass of the rule loop of \<^verbatim>\<open>check_path_policy\<close>: \<open>Some v\<close> where the body
  returns \<open>v\<close>, \<open>None\<close> where it goes on to the next index.
\<close>

definition path_rule_body :: "string \<Rightarrow> u32 \<Rightarrow> policy_rule option \<Rightarrow> int option" where
  "path_rule_body pth file_op_type rule_ptr =
     (case rule_ptr of
        None \<Rightarrow> None
      | Some rule \<Rightarrow>
          let len = path_len rule in
          if len = 0 \<or> len > 64 then None
          else if simple_string_starts_with pth (path rule) len \<noteq> 0 then
            (if operation rule = OP_OPEN then Some (sint (action rule))
             else if operation rule = file_op_type then Some (sint (action rule))
             else None)
          else None)"

function path_policy_loop :: "open_maps \<Rightarrow> string \<Rightarrow> u32 \<Rightarrow> nat \<Rightarrow> nat \<Rightarrow> int" where
  "path_policy_loop m pth file_op_type n i =
     (if i < 256 then
        (if i \<ge> n then open_default m
         else (case path_rule_body pth file_op_type (policy_rules m (of_nat i)) of
                 Some v \<Rightarrow> v
               | None \<Rightarrow> path_policy_loop m pth file_op_type n (i + 1)))
      else open_default m)"
  by pat_completeness auto
termination
  by (relation "measure (\<lambda>(m, pth, file_op_type, n, i). 256 - i)") auto

declare path_policy_loop.simps [simp del]

definition check_path_policy :: "open_maps \<Rightarrow> string \<Rightarrow> u32 \<Rightarrow> int" where
  "check_path_policy m pth file_op_type =
     (let n = (case num_rules m of None \<Rightarrow> 0 | Some v \<Rightarrow> v) in
      if n = 0 then open_default m
      else path_policy_loop m pth file_op_type (unat (if n > 256 then 256 else n)) 0)"

subsection \<open>The file\_open probe\<close>

text \<open>
  The three loops over \<^verbatim>\<open>event->comm\<close> differ in their literal and bounds only:
  \<open>bound\<close> is the loop bound, \<open>len\<close> the length tested inside, and the expected
  byte at \<open>i\<close> is the literal's, or NUL beyond it.
\<close>

function comm_loop :: "string \<Rightarrow> string \<Rightarrow> nat \<Rightarrow> nat \<Rightarrow> nat \<Rightarrow> bool" where
  "comm_loop cm expected bound len i =
     (if i < bound then
        (if i \<ge> len then True
         else if byte_at cm i \<noteq> byte_at expected i then False
         else comm_loop cm expected bound len (i + 1))
      else True)"
  by pat_completeness auto
termination
  by (relation "measure (\<lambda>(cm, expected, bound, len, i). bound - i)") auto

declare comm_loop.simps [simp del]

text \<open>Copy up to the first NUL, at most \<open>bound\<close> bytes.\<close>

function copy_loop :: "string \<Rightarrow> nat \<Rightarrow> nat \<Rightarrow> string" where
  "copy_loop src bound i =
     (if i < bound then
        (if byte_at src i = NUL then [byte_at src i]
         else byte_at src i # copy_loop src bound (i + 1))
      else [])"
  by pat_completeness auto
termination
  by (relation "measure (\<lambda>(src, bound, i). bound - i)") auto

declare copy_loop.simps [simp del]

text \<open>
  \<open>pth\<close> is the buffer after path resolution (\<^verbatim>\<open>bpf_d_path\<close> or its fallback),
  \<open>f_mode\<close> the file's mode, \<open>reserved\<close> whether \<^verbatim>\<open>bpf_ringbuf_reserve\<close> gives a
  record. The result is the value returned to the kernel and the event submitted.
\<close>

definition lsm_open :: "open_maps \<Rightarrow> task \<Rightarrow> string \<Rightarrow> u32 \<Rightarrow> bool \<Rightarrow> int \<times> open_event option" where
  "lsm_open m t pth f_mode reserved =
     (if \<not> is_target_cgroup m t then (0, None)
      else if is_nsfs_path pth then (0, None)
      else
        let file_op_type = get_file_operation_type f_mode;
            policy_result = check_path_policy m pth file_op_type
        in
          if \<not> reserved then (verdict policy_result, None)
          else
            let cm = comm t;
                is_apt_get = comm_loop cm ''apt-get'' 8 7 0;
                is_dpkg = comm_loop cm ''dpkg'' 5 4 0;
                is_update = comm_loop cm ''update'' 7 6 0;
                policy_result =
                  (if (is_apt_get \<and> byte_at cm 7 = NUL) \<or> is_dpkg \<or> is_update
                   then 1 else policy_result);
                event = \<lparr> oe_pid = ucast (drop_bit 32 (pid_tgid t)),
                          oe_tgid = ucast (pid_tgid t AND 0xFFFFFFFF),
                          oe_timestamp = ktime t,
                          oe_cgroup_id = cgroup_id t,
                          oe_comm = cm,
                          oe_path = copy_loop pth 256 0,
                          oe_operation = file_op_type,
                          oe_result = verdict policy_result \<rparr>
            in (verdict policy_result, Some event))"

section \<open>Exec (lsm\_exec.bpf.c)\<close>

record exec_event =
  xe_pid :: u32
  xe_padding :: u32
  xe_timestamp :: u64
  xe_cgroup_id :: u64
  xe_comm :: string
  xe_path :: string
  xe_result :: int
  xe_argc :: u32
  xe_detailed_args :: "string list"

record exec_policy_rule =
  xr_action :: u32
  xr_operation :: u32
  xr_path_len :: u32
  xr_path :: string
  xr_is_directory :: u32
  arg_count :: u32
  has_wildcard :: u32
  args :: "string list"
  arg_lens :: "u32 list"

record pending_args =
  pa_timestamp :: u64
  pa_argc :: u32
  original_path :: string
  detailed_args :: "string list"

record exec_maps =
  exec_target_cgroup :: "u64 option"
  exec_allowed_cgroups :: "u64 \<rightharpoonup> u8"
  exec_policy_rules :: "u32 \<rightharpoonup> exec_policy_rule"
  exec_num_rules :: "u32 option"
  exec_default_policy :: "u32 option"
  pending_exec_args :: "u32 \<rightharpoonup> pending_args"

text \<open>
  An array of buffers (\<^verbatim>\<open>args[4][32]\<close>, \<^verbatim>\<open>detailed_args[6][24]\<close>) or of lengths
  (\<^verbatim>\<open>arg_lens[4]\<close>) is the list of its leading entries; an entry that the list does
  not give is all zero. The loops stay inside the declared sizes.
\<close>

definition buf_at :: "string list \<Rightarrow> nat \<Rightarrow> string" where
  "buf_at bufs i = (if i < length bufs then bufs ! i else [])"

definition len_at :: "u32 list \<Rightarrow> nat \<Rightarrow> u32" where
  "len_at lens i = (if i < length lens then lens ! i else 0)"

definition current_pid :: "task \<Rightarrow> u32" where
  "current_pid t = ucast (drop_bit 32 (pid_tgid t))"

definition is_exec_target_cgroup :: "exec_maps \<Rightarrow> task \<Rightarrow> bool" where
  "is_exec_target_cgroup m t =
     (case exec_target_cgroup m of
        None \<Rightarrow> False
      | Some target_cgroup_id \<Rightarrow>
          if target_cgroup_id = 0 then False
          else (case exec_allowed_cgroups m (cgroup_id t) of
                  None \<Rightarrow> False
                | Some allowed \<Rightarrow> allowed = 1))"

subsection \<open>The exec matcher\<close>

function arg_match_loop :: "string \<Rightarrow> string \<Rightarrow> nat \<Rightarrow> nat \<Rightarrow> bool" where
  "arg_match_loop actual pat len j =
     (if j < len \<and> j < 16 then
        (if byte_at actual j \<noteq> byte_at pat j then False
         else arg_match_loop actual pat len (j + 1))
      else True)"
  by pat_completeness auto
termination
  by (relation "measure (\<lambda>(actual, pat, len, j). 16 - j)") auto

declare arg_match_loop.simps [simp del]

text \<open>The two outer loops return \<open>True\<close> where the source returns 0 (deny).\<close>

function actual_args_loop :: "pending_args \<Rightarrow> exec_policy_rule \<Rightarrow> nat \<Rightarrow> nat \<Rightarrow> bool" where
  "actual_args_loop pending rule p a =
     (if a < unat (pa_argc pending) \<and> a < 4 then
        (if arg_match_loop (buf_at (detailed_args pending) a) (buf_at (args rule) p)
              (unat (len_at (arg_lens rule) p)) 0
         then True
         else actual_args_loop pending rule p (a + 1))
      else False)"
  by pat_completeness auto
termination
  by (relation "measure (\<lambda>(pending, rule, p, a). 4 - a)") auto

declare actual_args_loop.simps [simp del]

function policy_args_loop :: "pending_args \<Rightarrow> exec_policy_rule \<Rightarrow> nat \<Rightarrow> bool" where
  "policy_args_loop pending rule p =
     (if p < unat (arg_count rule) \<and> p < 3 then
        (if actual_args_loop pending rule p 1 then True
         else policy_args_loop pending rule (p + 1))
      else False)"
  by pat_completeness auto
termination
  by (relation "measure (\<lambda>(pending, rule, p). 3 - p)") auto

declare policy_args_loop.simps [simp del]

definition exec_default :: "exec_maps \<Rightarrow> int" where
  "exec_default m = (case exec_default_policy m of None \<Rightarrow> 0 | Some d \<Rightarrow> sint d)"

text \<open>
  One pass of the rule loop of \<^verbatim>\<open>check_exec_policy\<close>: \<open>Some v\<close> where the body
  returns \<open>v\<close>, \<open>None\<close> where it goes on to the next index. \<open>pending_ptr\<close> is the
  lookup of the current PID in \<^verbatim>\<open>pending_exec_args\<close>.
\<close>

definition exec_rule_body :: "pending_args option \<Rightarrow> string \<Rightarrow> exec_policy_rule option \<Rightarrow> int option" where
  "exec_rule_body pending_ptr pth rule_ptr =
     (case rule_ptr of
        None \<Rightarrow> None
      | Some rule \<Rightarrow>
          if xr_path_len rule = 0 \<or> xr_path_len rule > 64 then None
          else if simple_string_starts_with pth (xr_path rule) (xr_path_len rule) \<noteq> 0 then
            (if arg_count rule = 0 then Some (sint (xr_action rule))
             else
               (case pending_ptr of
                  None \<Rightarrow> None
                | Some pending \<Rightarrow>
                    if pa_argc pending > 1 \<and> arg_count rule > 0 \<and> xr_action rule = 0 then
                      (if policy_args_loop pending rule 0 then Some 0 else None)
                    else None))
          else None)"

function exec_policy_loop :: "exec_maps \<Rightarrow> task \<Rightarrow> string \<Rightarrow> nat \<Rightarrow> nat \<Rightarrow> int" where
  "exec_policy_loop m t pth n i =
     (if i < n \<and> i < 64 then
        (case exec_rule_body (pending_exec_args m (current_pid t)) pth
                (exec_policy_rules m (of_nat i)) of
           Some v \<Rightarrow> v
         | None \<Rightarrow> exec_policy_loop m t pth n (i + 1))
      else exec_default m)"
  by pat_completeness auto
termination
  by (relation "measure (\<lambda>(m, t, pth, n, i). 64 - i)") auto

declare exec_policy_loop.simps [simp del]

definition check_exec_policy :: "exec_maps \<Rightarrow> task \<Rightarrow> string \<Rightarrow> int" where
  "check_exec_policy m t pth =
     (let n = (case exec_num_rules m of None \<Rightarrow> 0 | Some v \<Rightarrow> v) in
      if n = 0 then exec_default m
      else exec_policy_loop m t pth (unat (if n > 64 then 64 else n)) 0)"

subsection \<open>The bprm\_check\_security probe\<close>

text \<open>
  \<open>pth\<close> is the buffer after path resolution and \<open>reserved\<close> whether
  \<^verbatim>\<open>bpf_ringbuf_reserve\<close> gives a record. The result is the value returned to
  the kernel, the event submitted, and the maps as the probe leaves them.
\<close>

definition lsm_exec :: "exec_maps \<Rightarrow> task \<Rightarrow> string \<Rightarrow> bool \<Rightarrow> int \<times> exec_event option \<times> exec_maps" where
  "lsm_exec m t pth reserved =
     (if \<not> is_exec_target_cgroup m t then (0, None, m)
      else
        let policy_result = check_exec_policy m t pth in
        if \<not> reserved then (verdict policy_result, None, m)
        else
          let pid = current_pid t;
              event = \<lparr> xe_pid = pid,
                        xe_padding = 0,
                        xe_timestamp = ktime t,
                        xe_cgroup_id = cgroup_id t,
                        xe_comm = comm t,
                        xe_path = take 255 pth,
                        xe_result = verdict policy_result,
                        xe_argc = 0,
                        xe_detailed_args = [] \<rparr>
          in
            (case pending_exec_args m pid of
               Some pending \<Rightarrow>
                 (verdict policy_result,
                  Some (event\<lparr> xe_argc := pa_argc pending,
                               xe_detailed_args := detailed_args pending \<rparr>),
                  m\<lparr> pending_exec_args := (pending_exec_args m)(pid := None) \<rparr>)
             | None \<Rightarrow>
                 (verdict policy_result,
                  Some (event\<lparr> xe_argc := 0, xe_detailed_args := replicate 6 [] \<rparr>),
                  m)))"

subsection \<open>The sys\_enter\_execve tracepoint\<close>

text \<open>
  What reading \<^verbatim>\<open>argv[i]\<close> from user memory gives: the pointer read faults, the
  pointer is null, the string read fails, or a string.
\<close>

datatype user_arg = PtrFault | NullArg | StrFault | ArgStr string

definition argv_at :: "user_arg list \<Rightarrow> nat \<Rightarrow> user_arg" where
  "argv_at argv i = (if i < length argv then argv ! i else NullArg)"

function capture_loop :: "user_arg list \<Rightarrow> nat \<Rightarrow> pending_args \<Rightarrow> pending_args" where
  "capture_loop argv i pending =
     (if i < 6 then
        (case argv_at argv i of
           PtrFault \<Rightarrow> pending
         | NullArg \<Rightarrow> pending
         | StrFault \<Rightarrow> pending
         | ArgStr str \<Rightarrow>
             capture_loop argv (i + 1)
               (pending\<lparr> detailed_args := (detailed_args pending)[i := take 23 str],
                         pa_argc := pa_argc pending + 1 \<rparr>))
      else pending)"
  by pat_completeness auto
termination
  by (relation "measure (\<lambda>(argv, i, pending). 6 - i)") auto

declare capture_loop.simps [simp del]

text \<open>
  \<open>filename\<close> is the string read at \<^verbatim>\<open>ctx->filename\<close> (\<open>None\<close>: a null pointer or a
  failed read), \<open>argv\<close> the user array at \<^verbatim>\<open>ctx->argv\<close> (\<open>None\<close>: a null pointer),
  \<open>stored\<close> whether \<^verbatim>\<open>bpf_map_update_elem\<close> succeeds (it fails when the table is
  full). The result is the value returned and the maps as the tracepoint leaves them.
\<close>

definition trace_sys_enter_execve ::
  "exec_maps \<Rightarrow> task \<Rightarrow> string option \<Rightarrow> user_arg list option \<Rightarrow> bool \<Rightarrow> int \<times> exec_maps" where
  "trace_sys_enter_execve m t filename argv stored =
     (if \<not> is_exec_target_cgroup m t then (0, m)
      else
        let pid = current_pid t;
            pending = \<lparr> pa_timestamp = ktime t,
                        pa_argc = 0,
                        original_path = (case filename of None \<Rightarrow> [] | Some f \<Rightarrow> take 255 f),
                        detailed_args = replicate 6 [] \<rparr>;
            pending = (case argv of None \<Rightarrow> pending | Some av \<Rightarrow> capture_loop av 0 pending);
            pending =
              (if pa_argc pending = 0
               then pending\<lparr> pa_argc := 1,
                             detailed_args := (detailed_args pending)[0 := take 16 (comm t)] \<rparr>
               else pending)
        in
          (0, if stored
              then m\<lparr> pending_exec_args := (pending_exec_args m)(pid \<mapsto> pending) \<rparr>
              else m))"

section \<open>Connect and sendmsg (lsm\_connect.bpf.c)\<close>

definition AF_INET :: u16 where "AF_INET = 2"

record connect_event =
  ce_pid :: u32
  ce_tgid :: u32
  ce_timestamp :: u64
  ce_cgroup_id :: u64
  ce_comm :: string
  ce_family :: u32
  ce_protocol :: u32
  ce_dest_ip :: u32
  ce_dest_port :: u16
  ce_result :: int
  ce_dest_hostname :: string

record connect_policy_rule =
  cr_action :: u32
  cr_operation :: u32
  cr_dest_ip :: u32
  cr_dest_port :: u16
  hostname :: string
  hostname_len :: u32
  is_wildcard :: u32

text \<open>\<^verbatim>\<open>connect_num_rules\<close> holds an \<^verbatim>\<open>s32\<close>: a 32-bit word, read with \<open>sint\<close>.\<close>

record connect_maps =
  connect_target_cgroup :: "u64 option"
  connect_allowed_cgroups :: "u64 \<rightharpoonup> u8"
  connect_policy_rules :: "u32 \<rightharpoonup> connect_policy_rule"
  connect_num_rules :: "u32 option"
  connect_default_policy :: "u32 option"
  dns_cache :: "u32 \<rightharpoonup> string"

record sockaddr_in =
  sin_family :: u16
  sin_port :: u16
  sin_addr :: u32

definition is_connect_target_cgroup :: "connect_maps \<Rightarrow> task \<Rightarrow> bool" where
  "is_connect_target_cgroup m t =
     (case connect_target_cgroup m of
        None \<Rightarrow> False
      | Some target \<Rightarrow>
          if target = 0 then False
          else (case connect_allowed_cgroups m (cgroup_id t) of
                  None \<Rightarrow> False
                | Some allowed \<Rightarrow> True))"

definition connect_default :: "connect_maps \<Rightarrow> int" where
  "connect_default m = (case connect_default_policy m of None \<Rightarrow> 0 | Some d \<Rightarrow> sint d)"

text \<open>
  One pass of the rule loop of \<^verbatim>\<open>check_connect_policy\<close>: \<open>Some v\<close> where the
  body returns \<open>v\<close>, \<open>None\<close> where it goes on to the next index.
\<close>

definition connect_rule_body :: "u32 \<Rightarrow> u16 \<Rightarrow> connect_policy_rule option \<Rightarrow> int option" where
  "connect_rule_body dest_ip dest_port rule_ptr =
     (case rule_ptr of
        None \<Rightarrow> None
      | Some rule \<Rightarrow>
          if cr_dest_ip rule \<noteq> 0 \<and> cr_dest_ip rule \<noteq> dest_ip then None
          else if cr_dest_port rule \<noteq> 0 \<and> cr_dest_port rule \<noteq> dest_port then None
          else Some (sint (cr_action rule)))"

function connect_policy_loop :: "connect_maps \<Rightarrow> u32 \<Rightarrow> u16 \<Rightarrow> u32 \<Rightarrow> nat \<Rightarrow> int" where
  "connect_policy_loop m dest_ip dest_port num i =
     (if i < 256 then
        (if i \<ge> unat num then connect_default m
         else (case connect_rule_body dest_ip dest_port (connect_policy_rules m (of_nat i)) of
                 Some v \<Rightarrow> v
               | None \<Rightarrow> connect_policy_loop m dest_ip dest_port num (i + 1)))
      else connect_default m)"
  by pat_completeness auto
termination
  by (relation "measure (\<lambda>(m, dest_ip, dest_port, num, i). 256 - i)") auto

declare connect_policy_loop.simps [simp del]

definition check_connect_policy :: "connect_maps \<Rightarrow> u32 \<Rightarrow> u16 \<Rightarrow> int" where
  "check_connect_policy m dest_ip dest_port =
     (case connect_num_rules m of
        None \<Rightarrow> 0
      | Some num \<Rightarrow>
          if sint num \<le> 0 then connect_default m
          else connect_policy_loop m dest_ip dest_port num 0)"

text \<open>
  \<open>protocol\<close> is \<^verbatim>\<open>sock->sk->sk_protocol\<close>. The hostname is copied from the DNS
  cache for the event only.
\<close>

definition process_network_event ::
  "connect_maps \<Rightarrow> task \<Rightarrow> u32 \<Rightarrow> u32 \<Rightarrow> u16 \<Rightarrow> u16 \<Rightarrow> bool \<Rightarrow> int \<times> connect_event option" where
  "process_network_event m t protocol dest_ip dest_port family reserved =
     (let hostname_buf =
            (case dns_cache m dest_ip of
               None \<Rightarrow> []
             | Some cached_hostname \<Rightarrow> copy_loop cached_hostname 127 0);
          policy_result = check_connect_policy m dest_ip dest_port
      in
        if \<not> reserved then (verdict policy_result, None)
        else
          (verdict policy_result,
           Some \<lparr> ce_pid = ucast (drop_bit 32 (pid_tgid t)),
                  ce_tgid = ucast (pid_tgid t AND 0xFFFFFFFF),
                  ce_timestamp = ktime t,
                  ce_cgroup_id = cgroup_id t,
                  ce_comm = comm t,
                  ce_family = ucast family,
                  ce_protocol = protocol,
                  ce_dest_ip = dest_ip,
                  ce_dest_port = dest_port,
                  ce_result = verdict policy_result,
                  ce_dest_hostname = copy_loop hostname_buf 128 0 \<rparr>))"

text \<open>
  \<open>family_read\<close> and \<open>uaddr_read\<close> are the two reads of the user address
  (\<open>None\<close>: the read fails).
\<close>

definition lsm_connect ::
  "connect_maps \<Rightarrow> task \<Rightarrow> u32 \<Rightarrow> u16 option \<Rightarrow> sockaddr_in option \<Rightarrow> bool
     \<Rightarrow> int \<times> connect_event option" where
  "lsm_connect m t protocol family_read uaddr_read reserved =
     (if \<not> is_connect_target_cgroup m t then (0, None)
      else
        (case family_read of
           None \<Rightarrow> (0, None)
         | Some family \<Rightarrow>
             if family \<noteq> AF_INET then (0, None)
             else
               (case uaddr_read of
                  None \<Rightarrow> (0, None)
                | Some uaddr \<Rightarrow>
                    process_network_event m t protocol (sin_addr uaddr) (sin_port uaddr)
                      family reserved)))"

text \<open>
  \<open>msg_name_read\<close> is the read of the \<^verbatim>\<open>msg_name\<close> pointer (\<open>None\<close>: the read
  fails; \<open>Some False\<close>: a null pointer), \<open>family_read\<close> and \<open>kaddr_read\<close> the two
  reads of the address it points to.
\<close>

definition lsm_sendmsg ::
  "connect_maps \<Rightarrow> task \<Rightarrow> u32 \<Rightarrow> bool option \<Rightarrow> u16 option \<Rightarrow> sockaddr_in option \<Rightarrow> bool
     \<Rightarrow> int \<times> connect_event option" where
  "lsm_sendmsg m t protocol msg_name_read family_read kaddr_read reserved =
     (if \<not> is_connect_target_cgroup m t then (0, None)
      else
        (case msg_name_read of
           None \<Rightarrow> (0, None)
         | Some msg_name \<Rightarrow>
             if \<not> msg_name then (0, None)
             else
               (case family_read of
                  None \<Rightarrow> (0, None)
                | Some family \<Rightarrow>
                    if family \<noteq> AF_INET then (0, None)
                    else
                      (case kaddr_read of
                         None \<Rightarrow> (0, None)
                       | Some kaddr \<Rightarrow>
                           process_network_event m t protocol (sin_addr kaddr) (sin_port kaddr)
                             family reserved))))"

section \<open>The matchers as the specification words them\<close>

text \<open>
  The definitions of this section follow the specification's sentences, not the
  source; the theorems below compare them with the loops above.
\<close>

text \<open>The first \<open>n\<close> bytes of a buffer, and the string that a buffer holds.\<close>

definition bytes_upto :: "nat \<Rightarrow> string \<Rightarrow> string" where
  "bytes_upto n buf = map (byte_at buf) [0..<n]"

definition c_string :: "string \<Rightarrow> string" where
  "c_string buf = takeWhile (\<lambda>c. c \<noteq> NUL) buf"

text \<open>
  The rule slots that a matcher inspects: the indices below \<open>k\<close> in order, a slot
  whose lookup misses left out.
\<close>

definition inspected :: "(u32 \<rightharpoonup> 'r) \<Rightarrow> nat \<Rightarrow> 'r list" where
  "inspected rules k = List.map_filter (\<lambda>i. rules (of_nat i)) [0..<k]"

text \<open>
  A rule's path matches: its length is between 1 and 64 and the first
  \<open>path_len\<close> bytes of the two paths are equal.
\<close>

definition path_prefix_matches :: "string \<Rightarrow> string \<Rightarrow> u32 \<Rightarrow> bool" where
  "path_prefix_matches pth rule_path len =
     (len \<noteq> 0 \<and> len \<le> 64 \<and> bytes_upto (unat len) pth = bytes_upto (unat len) rule_path)"

text \<open>Open: the observed mode from the write bit (bit 1) and the read bit (bit 0).\<close>

definition observed_mode :: "u32 \<Rightarrow> u32" where
  "observed_mode f_mode =
     (if bit f_mode 1 then OP_OPEN_RW else if bit f_mode 0 then OP_OPEN_RO else OP_OPEN)"

definition open_rule_matches :: "string \<Rightarrow> u32 \<Rightarrow> policy_rule \<Rightarrow> bool" where
  "open_rule_matches pth mode rule =
     (path_prefix_matches pth (path rule) (path_len rule)
      \<and> (operation rule = OP_OPEN \<or> operation rule = mode))"

definition open_matcher_spec :: "open_maps \<Rightarrow> string \<Rightarrow> u32 \<Rightarrow> int" where
  "open_matcher_spec m pth mode =
     (let n = (case num_rules m of None \<Rightarrow> 0 | Some v \<Rightarrow> unat v) in
      case find (open_rule_matches pth mode) (inspected (policy_rules m) (min n 256)) of
        Some rule \<Rightarrow> sint (action rule)
      | None \<Rightarrow> (case default_policy m of Some d \<Rightarrow> sint d | None \<Rightarrow> 0))"

text \<open>
  Exec: a deny rule with arguments is a blacklist of its first \<open>min(arg_count, 3)\<close>
  patterns over the correlated \<open>argv[1]\<close> up to, not including,
  \<open>argv[min(argc, 4)]\<close>; two arguments are equal when their first
  \<open>min(arg_lens[p], 16)\<close> bytes are.
\<close>

definition arg_eq :: "pending_args \<Rightarrow> exec_policy_rule \<Rightarrow> nat \<Rightarrow> nat \<Rightarrow> bool" where
  "arg_eq pending rule p a =
     (bytes_upto (min (unat (len_at (arg_lens rule) p)) 16) (buf_at (detailed_args pending) a)
      = bytes_upto (min (unat (len_at (arg_lens rule) p)) 16) (buf_at (args rule) p))"

definition blacklist_hit :: "pending_args \<Rightarrow> exec_policy_rule \<Rightarrow> bool" where
  "blacklist_hit pending rule =
     (\<exists>p \<in> set [0..<min (unat (arg_count rule)) 3].
      \<exists>a \<in> set [1..<min (unat (pa_argc pending)) 4]. arg_eq pending rule p a)"

definition exec_rule_decision :: "pending_args option \<Rightarrow> string \<Rightarrow> exec_policy_rule \<Rightarrow> int option" where
  "exec_rule_decision pending_ptr pth rule =
     (if \<not> path_prefix_matches pth (xr_path rule) (xr_path_len rule) then None
      else if arg_count rule = 0 then Some (sint (xr_action rule))
      else if xr_action rule = 0 then
        (case pending_ptr of
           None \<Rightarrow> None
         | Some pending \<Rightarrow> if blacklist_hit pending rule then Some 0 else None)
      else None)"

text \<open>What a rule whose path matches decides, from its arguments.\<close>

definition exec_args_decision :: "pending_args option \<Rightarrow> exec_policy_rule \<Rightarrow> int option" where
  "exec_args_decision pending_ptr rule =
     (if arg_count rule = 0 then Some (sint (xr_action rule))
      else if xr_action rule = 0 then
        (case pending_ptr of
           None \<Rightarrow> None
         | Some pending \<Rightarrow> if blacklist_hit pending rule then Some 0 else None)
      else None)"

definition exec_matcher_spec :: "exec_maps \<Rightarrow> task \<Rightarrow> string \<Rightarrow> int" where
  "exec_matcher_spec m t pth =
     (let n = (case exec_num_rules m of None \<Rightarrow> 0 | Some v \<Rightarrow> unat v) in
      case List.map_filter (exec_rule_decision (pending_exec_args m (current_pid t)) pth)
             (inspected (exec_policy_rules m) (min n 64)) of
        v # _ \<Rightarrow> v
      | [] \<Rightarrow> (case exec_default_policy m of Some d \<Rightarrow> sint d | None \<Rightarrow> 0))"

text \<open>Connect: a rule is skipped on a non-zero address or port that differs.\<close>

definition connect_rule_skipped :: "u32 \<Rightarrow> u16 \<Rightarrow> connect_policy_rule \<Rightarrow> bool" where
  "connect_rule_skipped dest_ip dest_port rule =
     ((cr_dest_ip rule \<noteq> 0 \<and> cr_dest_ip rule \<noteq> dest_ip)
      \<or> (cr_dest_port rule \<noteq> 0 \<and> cr_dest_port rule \<noteq> dest_port))"

definition connect_matcher_spec :: "connect_maps \<Rightarrow> int \<Rightarrow> u32 \<Rightarrow> u16 \<Rightarrow> int" where
  "connect_matcher_spec m n dest_ip dest_port =
     (case find (\<lambda>rule. \<not> connect_rule_skipped dest_ip dest_port rule)
             (inspected (connect_policy_rules m) (nat (min n 256))) of
        Some rule \<Rightarrow> sint (cr_action rule)
      | None \<Rightarrow> (case connect_default_policy m of Some d \<Rightarrow> sint d | None \<Rightarrow> 0))"

text \<open>
  The namespace paths that the open probe lets through: one of the eight
  prefixes, then \<open>digits\<close>, then a closing bracket.
\<close>

definition nsfs_prefixes :: "string list" where
  "nsfs_prefixes =
     [''mnt:['', ''net:['', ''ipc:['', ''pid:['', ''uts:['', ''user:['', ''cgroup:['', ''time:['']"

definition nsfs_shaped :: "string \<Rightarrow> string \<Rightarrow> string \<Rightarrow> string \<Rightarrow> bool" where
  "nsfs_shaped pth pfx digits rest =
     (pth = pfx @ digits @ '']'' @ rest \<and> pfx \<in> set nsfs_prefixes
      \<and> digits \<noteq> [] \<and> list_all is_digit digits)"

text \<open>One pass of the prefix loop of \<^verbatim>\<open>is_nsfs_path\<close> returns \<^verbatim>\<open>true\<close>.\<close>

definition nsfs_hit :: "string \<Rightarrow> nat \<Rightarrow> bool" where
  "nsfs_hit pth idx =
     (case nsfs_prefix idx of
        None \<Rightarrow> False
      | Some (pfx, prefix_len) \<Rightarrow>
          nsfs_prefix_loop pth pfx prefix_len 0 \<and> nsfs_digit_loop pth prefix_len False 0)"

section \<open>Scenarios\<close>

text \<open>
  Concrete maps and tasks, after the end-to-end scenarios of the specification. The
  task runs in cgroup 42 with PID 77.
\<close>

definition demo_task :: task where
  "demo_task = \<lparr> cgroup_id = 42, pid_tgid = 0x4D0000004D, comm = ''cat'', ktime = 1000 \<rparr>"

text \<open>Open: deny writes below \<^verbatim>\<open>/var/log/\<close>, allow by default.\<close>

definition log_rule :: policy_rule where
  "log_rule = \<lparr> action = 0, operation = OP_OPEN_RW, path_len = 9, path = ''/var/log/'',
               is_directory = 1 \<rparr>"

definition log_maps :: open_maps where
  "log_maps = \<lparr> target_cgroup = Some 42, allowed_cgroups = [42 \<mapsto> 1],
               policy_rules = [0 \<mapsto> log_rule], num_rules = Some 1, default_policy = Some 1 \<rparr>"

text \<open>Open: one deny-all rule whose length is out of range, allow by default.\<close>

definition long_rule :: policy_rule where
  "long_rule = \<lparr> action = 0, operation = OP_OPEN, path_len = 65, path = ''/'',
                is_directory = 1 \<rparr>"

definition long_maps :: open_maps where
  "long_maps = \<lparr> target_cgroup = Some 42, allowed_cgroups = [42 \<mapsto> 1],
                policy_rules = [0 \<mapsto> long_rule], num_rules = Some 1, default_policy = Some 1 \<rparr>"

text \<open>Open: no rule, deny by default.\<close>

definition deny_maps :: open_maps where
  "deny_maps = \<lparr> target_cgroup = Some 42, allowed_cgroups = [42 \<mapsto> 1],
                policy_rules = Map.empty, num_rules = Some 0, default_policy = Some 0 \<rparr>"

text \<open>
  Exec: deny \<^verbatim>\<open>--privileged\<close> below \<^verbatim>\<open>/bin/\<close>, allow by default; the tracepoint has
  stored the arguments of PID 77.
\<close>

definition priv_rule :: exec_policy_rule where
  "priv_rule = \<lparr> xr_action = 0, xr_operation = 3, xr_path_len = 5, xr_path = ''/bin/'',
                xr_is_directory = 1, arg_count = 1, has_wildcard = 0,
                args = [''--privileged''], arg_lens = [12] \<rparr>"

definition empty_len_rule :: exec_policy_rule where
  "empty_len_rule = \<lparr> xr_action = 0, xr_operation = 3, xr_path_len = 0, xr_path = ''/bin/'',
                xr_is_directory = 1, arg_count = 0, has_wildcard = 0,
                args = [], arg_lens = [] \<rparr>"

definition ls_args :: "string \<Rightarrow> pending_args" where
  "ls_args arg = \<lparr> pa_timestamp = 900, pa_argc = 2, original_path = ''/bin/ls'',
                   detailed_args = [''ls'', arg, [], [], [], []] \<rparr>"

definition exec_maps_with :: "exec_policy_rule \<Rightarrow> (u32 \<rightharpoonup> pending_args) \<Rightarrow> exec_maps" where
  "exec_maps_with rule pending =
     \<lparr> exec_target_cgroup = Some 42, exec_allowed_cgroups = [42 \<mapsto> 1],
       exec_policy_rules = [0 \<mapsto> rule], exec_num_rules = Some 1,
       exec_default_policy = Some 1, pending_exec_args = pending \<rparr>"

text \<open>
  Connect: allow port 443 (\<open>0xBB01\<close> in network byte order) to any address, deny by
  default; the address \<open>1.2.3.4\<close> is \<open>0x04030201\<close>.
\<close>

definition https_rule :: connect_policy_rule where
  "https_rule = \<lparr> cr_action = 1, cr_operation = 4, cr_dest_ip = 0, cr_dest_port = 0xBB01,
                 hostname = [], hostname_len = 0, is_wildcard = 0 \<rparr>"

definition connect_maps_with ::
  "u8 \<Rightarrow> u32 option \<Rightarrow> u32 option \<Rightarrow> connect_maps" where
  "connect_maps_with allowed num dflt =
     \<lparr> connect_target_cgroup = Some 42, connect_allowed_cgroups = [42 \<mapsto> allowed],
       connect_policy_rules = [0 \<mapsto> https_rule], connect_num_rules = num,
       connect_default_policy = dflt, dns_cache = Map.empty \<rparr>"

definition addr_1234 :: "u16 \<Rightarrow> sockaddr_in" where
  "addr_1234 port = \<lparr> sin_family = 2, sin_port = port, sin_addr = 0x04030201 \<rparr>"

text \<open>The same task under the command names that the open probe lets through.\<close>

definition apt_task :: task where
  "apt_task = \<lparr> cgroup_id = 42, pid_tgid = 0x4D0000004D, comm = ''apt-get'', ktime = 1000 \<rparr>"

definition dpkg_task :: task where
  "dpkg_task = \<lparr> cgroup_id = 42, pid_tgid = 0x4D0000004D, comm = ''dpkg-query'', ktime = 1000 \<rparr>"

text \<open>Exec: the maps after the tracepoint has fired for \<^verbatim>\<open>ls --color\<close>.\<close>

definition traced_maps :: exec_maps where
  "traced_maps =
     snd (trace_sys_enter_execve (exec_maps_with priv_rule Map.empty) demo_task
            (Some ''/bin/ls'') (Some [ArgStr ''ls'', ArgStr ''--color'', NullArg]) True)"

text \<open>
  Open: a deny rule whose path has exactly 64 bytes, allow by default; \<open>path64b\<close>
  differs from it in the last byte only.
\<close>

definition path64 :: string where
  "path64 = CHR ''/'' # replicate 63 (CHR ''a'')"

definition path64b :: string where
  "path64b = CHR ''/'' # replicate 62 (CHR ''a'') @ ''b''"

definition rule64 :: policy_rule where
  "rule64 = \<lparr> action = 0, operation = OP_OPEN, path_len = 64, path = path64, is_directory = 0 \<rparr>"

definition maps64 :: open_maps where
  "maps64 = \<lparr> target_cgroup = Some 42, allowed_cgroups = [42 \<mapsto> 1],
              policy_rules = [0 \<mapsto> rule64], num_rules = Some 1, default_policy = Some 1 \<rparr>"

text \<open>Exec: deny everything below \<^verbatim>\<open>/bin/\<close>, whatever the arguments.\<close>

definition bin_rule :: exec_policy_rule where
  "bin_rule = \<lparr> xr_action = 0, xr_operation = 3, xr_path_len = 5, xr_path = ''/bin/'',
               xr_is_directory = 1, arg_count = 0, has_wildcard = 0, args = [], arg_lens = [] \<rparr>"

text \<open>Connect: one rule for any address and any port, which denies; allow by default.\<close>

definition any_rule :: connect_policy_rule where
  "any_rule = \<lparr> cr_action = 0, cr_operation = 4, cr_dest_ip = 0, cr_dest_port = 0,
               hostname = [], hostname_len = 0, is_wildcard = 0 \<rparr>"

definition any_maps :: connect_maps where
  "any_maps =
     \<lparr> connect_target_cgroup = Some 42, connect_allowed_cgroups = [42 \<mapsto> 1],
       connect_policy_rules = [0 \<mapsto> any_rule], connect_num_rules = Some 1,
       connect_default_policy = Some 1, dns_cache = Map.empty \<rparr>"

section \<open>Loops and their closed forms\<close>

lemma all_from_step:
  assumes "P i"
  shows "(\<forall>k. i \<le> k \<and> k < n \<longrightarrow> P k) = (\<forall>k. i + 1 \<le> k \<and> k < (n::nat) \<longrightarrow> P k)"
proof
  assume a: "\<forall>k. i + 1 \<le> k \<and> k < n \<longrightarrow> P k"
  show "\<forall>k. i \<le> k \<and> k < n \<longrightarrow> P k"
  proof (intro allI impI)
    fix k assume "i \<le> k \<and> k < n"
    then show "P k" using a assms by (cases "k = i") auto
  qed
qed auto

lemma ex_from_step:
  assumes "\<not> P i"
  shows "(\<exists>k. i \<le> k \<and> k < n \<and> P k) = (\<exists>k. i + 1 \<le> k \<and> k < (n::nat) \<and> P k)"
proof
  assume "\<exists>k. i \<le> k \<and> k < n \<and> P k"
  then obtain k where k: "i \<le> k" "k < n" "P k" by blast
  with assms have "k \<noteq> i" by auto
  with k have "i + 1 \<le> k" by simp
  with k show "\<exists>k. i + 1 \<le> k \<and> k < n \<and> P k" by blast
next
  assume "\<exists>k. i + 1 \<le> k \<and> k < n \<and> P k"
  then obtain k where "i + 1 \<le> k" "k < n" "P k" by blast
  then have "i \<le> k \<and> k < n \<and> P k" by simp
  then show "\<exists>k. i \<le> k \<and> k < n \<and> P k" by blast
qed

lemma starts_with_loop_iff:
  "starts_with_loop s p n i \<noteq> 0 \<longleftrightarrow> (\<forall>k. i \<le> k \<and> k < min n 64 \<longrightarrow> byte_at s k = byte_at p k)"
proof (induction s p n i rule: starts_with_loop.induct)
  case (1 s p max_len i)
  show ?case
  proof (cases "i < 64 \<and> i < max_len")
    case False
    then show ?thesis
      by (subst starts_with_loop.simps) auto
  next
    case True
    show ?thesis
    proof (cases "byte_at s i = byte_at p i")
      case False
      with True show ?thesis
        by (subst starts_with_loop.simps) auto
    next
      case eq: True
      have "starts_with_loop s p max_len i = starts_with_loop s p max_len (i + 1)"
        using True eq by (subst starts_with_loop.simps) simp
      moreover have "(\<forall>k. i \<le> k \<and> k < min max_len 64 \<longrightarrow> byte_at s k = byte_at p k)
          \<longleftrightarrow> (\<forall>k. i + 1 \<le> k \<and> k < min max_len 64 \<longrightarrow> byte_at s k = byte_at p k)"
        using eq by (rule all_from_step [where P = "\<lambda>k. byte_at s k = byte_at p k"])
      ultimately show ?thesis
        using "1.IH" True eq by simp
    qed
  qed
qed

lemma bytes_upto_eq_iff:
  "bytes_upto n a = bytes_upto n b \<longleftrightarrow> (\<forall>k<n. byte_at a k = byte_at b k)"
  by (auto simp: bytes_upto_def)

lemma clamp64: "unat (if (len::u32) > 64 then 64 else len) = min (unat len) 64"
  by (auto simp: word_less_nat_alt min_def)

lemma simple_string_starts_with_iff:
  "simple_string_starts_with s p len \<noteq> 0
     \<longleftrightarrow> bytes_upto (min (unat len) 64) s = bytes_upto (min (unat len) 64) p"
  unfolding simple_string_starts_with_def clamp64 starts_with_loop_iff bytes_upto_eq_iff
  by auto


lemma path_prefix_matches_iff:
  "path_prefix_matches pth rp len \<longleftrightarrow>
     \<not> (len = 0 \<or> len > 64) \<and> simple_string_starts_with pth rp len \<noteq> 0"
proof -
  have "len \<le> 64 \<Longrightarrow> min (unat len) 64 = unat len"
    by (simp add: word_le_nat_alt)
  then show ?thesis
    unfolding path_prefix_matches_def simple_string_starts_with_iff
    by (auto simp: not_less)
qed

lemma path_rule_body_iff:
  "path_rule_body pth op rp = Some v \<longleftrightarrow>
     (\<exists>rule. rp = Some rule \<and> open_rule_matches pth op rule \<and> v = sint (action rule))"
  unfolding path_rule_body_def open_rule_matches_def path_prefix_matches_iff
  by (auto simp: Let_def split: option.splits if_splits)

lemma path_rule_body_None:
  "path_rule_body pth op rp = None \<longleftrightarrow>
     (\<forall>rule. rp = Some rule \<longrightarrow> \<not> open_rule_matches pth op rule)"
  unfolding path_rule_body_def open_rule_matches_def path_prefix_matches_iff
  by (auto simp: Let_def split: option.splits if_splits)

lemma inspected_step:
  "i < k \<Longrightarrow> List.map_filter (\<lambda>i. rules (of_nat i)) [i..<k] =
     (case rules (of_nat i) of None \<Rightarrow> List.map_filter (\<lambda>i. rules (of_nat i)) [Suc i..<k]
      | Some r \<Rightarrow> r # List.map_filter (\<lambda>i. rules (of_nat i)) [Suc i..<k])"
  by (simp add: upt_conv_Cons map_filter_simps split: option.splits)

lemma path_policy_loop_find:
  "path_policy_loop m pth op n i =
     (case find (open_rule_matches pth op)
             (List.map_filter (\<lambda>i. policy_rules m (of_nat i)) [i..<min n 256]) of
        Some rule \<Rightarrow> sint (action rule)
      | None \<Rightarrow> open_default m)"
proof (induction m pth op n i rule: path_policy_loop.induct)
  case (1 m pth op n i)
  show ?case
  proof (cases "i < 256 \<and> i < n")
    case False
    then show ?thesis
      by (subst path_policy_loop.simps) (auto simp: map_filter_simps)
  next
    case True
    then have lt: "i < min n 256" by simp
    show ?thesis
    proof (cases "path_rule_body pth op (policy_rules m (of_nat i))")
      case (Some v)
      then obtain rule where r: "policy_rules m (of_nat i) = Some rule"
          "open_rule_matches pth op rule" "v = sint (action rule)"
        by (auto simp: path_rule_body_iff)
      show ?thesis
        using True Some r
        by (subst path_policy_loop.simps) (simp add: inspected_step [OF lt])
    next
      case None
      then have skip: "\<And>rule. policy_rules m (of_nat i) = Some rule \<Longrightarrow> \<not> open_rule_matches pth op rule"
        by (simp add: path_rule_body_None)
      have "path_policy_loop m pth op n i = path_policy_loop m pth op n (i + 1)"
        using True None by (subst path_policy_loop.simps) simp
      also have "\<dots> = (case find (open_rule_matches pth op)
             (List.map_filter (\<lambda>i. policy_rules m (of_nat i)) [i + 1..<min n 256]) of
        Some rule \<Rightarrow> sint (action rule) | None \<Rightarrow> open_default m)"
        using "1.IH" True None by simp
      finally show ?thesis
        using skip by (simp add: inspected_step [OF lt] split: option.splits)
    qed
  qed
qed

lemma get_file_operation_type_observed:
  "get_file_operation_type f_mode = observed_mode f_mode"
proof -
  have w: "f_mode AND 2 \<noteq> 0 \<longleftrightarrow> bit f_mode 1"
    by (metis and_exp_eq_0_iff_not_bit power_one_right)
  have r: "f_mode AND 1 \<noteq> 0 \<longleftrightarrow> bit f_mode 0"
    by (simp add: and_one_eq bit_0 mod_2_eq_odd)
  show ?thesis
    by (simp add: get_file_operation_type_def observed_mode_def FMODE_WRITE_def FMODE_READ_def w r)
qed

lemma clamp256: "unat (if (n::u32) > 256 then 256 else n) = min (unat n) 256"
  by (auto simp: word_less_nat_alt min_def)

subsection \<open>The argument blacklist\<close>

lemma arg_match_loop_iff:
  "arg_match_loop actual pat len j \<longleftrightarrow>
     (\<forall>k. j \<le> k \<and> k < min len 16 \<longrightarrow> byte_at actual k = byte_at pat k)"
proof (induction actual pat len j rule: arg_match_loop.induct)
  case (1 actual pat len j)
  show ?case
  proof (cases "j < len \<and> j < 16")
    case False
    then show ?thesis
      by (subst arg_match_loop.simps) auto
  next
    case True
    show ?thesis
    proof (cases "byte_at actual j = byte_at pat j")
      case False
      with True show ?thesis
        by (subst arg_match_loop.simps) auto
    next
      case eq: True
      have "arg_match_loop actual pat len j = arg_match_loop actual pat len (j + 1)"
        using True eq by (subst arg_match_loop.simps) simp
      moreover have "(\<forall>k. j \<le> k \<and> k < min len 16 \<longrightarrow> byte_at actual k = byte_at pat k)
          \<longleftrightarrow> (\<forall>k. j + 1 \<le> k \<and> k < min len 16 \<longrightarrow> byte_at actual k = byte_at pat k)"
        using eq by (rule all_from_step [where P = "\<lambda>k. byte_at actual k = byte_at pat k"])
      ultimately show ?thesis
        using "1.IH" True eq by simp
    qed
  qed
qed

lemma arg_match_loop_bytes:
  "arg_match_loop actual pat len 0 \<longleftrightarrow>
     bytes_upto (min len 16) actual = bytes_upto (min len 16) pat"
  by (simp add: arg_match_loop_iff bytes_upto_eq_iff)

lemma actual_args_loop_iff:
  "actual_args_loop pending rule p a \<longleftrightarrow>
     (\<exists>a'. a \<le> a' \<and> a' < min (unat (pa_argc pending)) 4 \<and> arg_eq pending rule p a')"
proof (induction pending rule p a rule: actual_args_loop.induct)
  case (1 pending rule p a)
  show ?case
  proof (cases "a < unat (pa_argc pending) \<and> a < 4")
    case False
    then show ?thesis
      by (subst actual_args_loop.simps) auto
  next
    case True
    show ?thesis
    proof (cases "arg_eq pending rule p a")
      case hit: True
      then have "actual_args_loop pending rule p a"
        using True by (subst actual_args_loop.simps) (simp add: arg_match_loop_bytes arg_eq_def)
      moreover have "\<exists>a'. a \<le> a' \<and> a' < min (unat (pa_argc pending)) 4 \<and> arg_eq pending rule p a'"
        using True hit by (intro exI [of _ a]) simp
      ultimately show ?thesis by simp
    next
      case miss: False
      then have "actual_args_loop pending rule p a = actual_args_loop pending rule p (a + 1)"
        using True by (subst actual_args_loop.simps) (simp add: arg_match_loop_bytes arg_eq_def)
      moreover have "(\<exists>a'. a \<le> a' \<and> a' < min (unat (pa_argc pending)) 4 \<and> arg_eq pending rule p a')
          \<longleftrightarrow> (\<exists>a'. a + 1 \<le> a' \<and> a' < min (unat (pa_argc pending)) 4 \<and> arg_eq pending rule p a')"
        using miss by (rule ex_from_step [where P = "arg_eq pending rule p"])
      ultimately show ?thesis
        using "1.IH" True miss by (simp add: arg_match_loop_bytes arg_eq_def)
    qed
  qed
qed

lemma policy_args_loop_iff:
  "policy_args_loop pending rule p \<longleftrightarrow>
     (\<exists>p'. p \<le> p' \<and> p' < min (unat (arg_count rule)) 3 \<and> actual_args_loop pending rule p' 1)"
proof (induction pending rule p rule: policy_args_loop.induct)
  case (1 pending rule p)
  show ?case
  proof (cases "p < unat (arg_count rule) \<and> p < 3")
    case False
    then show ?thesis
      by (subst policy_args_loop.simps) auto
  next
    case True
    show ?thesis
    proof (cases "actual_args_loop pending rule p 1")
      case hit: True
      then have "policy_args_loop pending rule p"
        using True by (subst policy_args_loop.simps) simp
      moreover have "\<exists>p'. p \<le> p' \<and> p' < min (unat (arg_count rule)) 3 \<and> actual_args_loop pending rule p' 1"
        using True hit by (intro exI [of _ p]) simp
      ultimately show ?thesis by simp
    next
      case miss: False
      then have "policy_args_loop pending rule p = policy_args_loop pending rule (p + 1)"
        using True by (subst policy_args_loop.simps) simp
      moreover have "(\<exists>p'. p \<le> p' \<and> p' < min (unat (arg_count rule)) 3 \<and> actual_args_loop pending rule p' 1)
          \<longleftrightarrow> (\<exists>p'. p + 1 \<le> p' \<and> p' < min (unat (arg_count rule)) 3 \<and> actual_args_loop pending rule p' 1)"
        using miss by (rule ex_from_step [where P = "\<lambda>p'. actual_args_loop pending rule p' 1"])
      ultimately show ?thesis
        using "1.IH" True miss by simp
    qed
  qed
qed

lemma policy_args_loop_blacklist:
  "policy_args_loop pending rule 0 \<longleftrightarrow> blacklist_hit pending rule"
proof -
  have "policy_args_loop pending rule 0 \<longleftrightarrow>
      (\<exists>p. p < min (unat (arg_count rule)) 3 \<and>
         (\<exists>a. 1 \<le> a \<and> a < min (unat (pa_argc pending)) 4 \<and> arg_eq pending rule p a))"
    by (simp add: policy_args_loop_iff actual_args_loop_iff)
  also have "\<dots> \<longleftrightarrow> blacklist_hit pending rule"
    unfolding blacklist_hit_def arg_eq_def Bex_def set_upt atLeastLessThan_iff
    by (simp add: Suc_le_eq)
  finally show ?thesis .
qed

lemma blacklist_hit_argc:
  assumes "blacklist_hit pending rule"
  shows "pa_argc pending > 1" and "arg_count rule > 0"
proof -
  from assms obtain p a where
    "p < min (unat (arg_count rule)) 3" "1 \<le> a" "a < min (unat (pa_argc pending)) 4"
    unfolding blacklist_hit_def by auto
  then have "0 < unat (arg_count rule)" "1 < unat (pa_argc pending)" by auto
  then show "pa_argc pending > 1" and "arg_count rule > 0"
    by (simp_all add: word_less_nat_alt)
qed

lemma exec_rule_body_decision:
  "exec_rule_body pending_ptr pth (Some rule) = exec_rule_decision pending_ptr pth rule"
proof (cases "path_prefix_matches pth (xr_path rule) (xr_path_len rule)")
  case False
  then show ?thesis
    by (auto simp: exec_rule_body_def exec_rule_decision_def path_prefix_matches_iff)
next
  case True
  then have m: "\<not> (xr_path_len rule = 0 \<or> xr_path_len rule > 64)"
      "simple_string_starts_with pth (xr_path rule) (xr_path_len rule) \<noteq> 0"
    by (simp_all add: path_prefix_matches_iff)
  show ?thesis
  proof (cases pending_ptr)
    case None
    with True m show ?thesis
      by (simp add: exec_rule_body_def exec_rule_decision_def)
  next
    case (Some pending)
    show ?thesis
    proof (cases "blacklist_hit pending rule")
      case hit: True
      with True m Some blacklist_hit_argc [OF hit] show ?thesis
        by (simp add: exec_rule_body_def exec_rule_decision_def policy_args_loop_blacklist)
    next
      case False
      with True m Some show ?thesis
        by (simp add: exec_rule_body_def exec_rule_decision_def policy_args_loop_blacklist)
    qed
  qed
qed

lemma exec_rule_body_None [simp]: "exec_rule_body pending_ptr pth None = None"
  by (simp add: exec_rule_body_def)

lemma exec_policy_loop_first:
  "exec_policy_loop m t pth n i =
     (case List.map_filter (exec_rule_decision (pending_exec_args m (current_pid t)) pth)
             (List.map_filter (\<lambda>i. exec_policy_rules m (of_nat i)) [i..<min n 64]) of
        v # _ \<Rightarrow> v
      | [] \<Rightarrow> exec_default m)"
proof (induction m t pth n i rule: exec_policy_loop.induct)
  case (1 m t pth n i)
  show ?case
  proof (cases "i < n \<and> i < 64")
    case False
    then show ?thesis
      by (subst exec_policy_loop.simps) (auto simp: map_filter_simps)
  next
    case True
    then have lt: "i < min n 64" by simp
    show ?thesis
    proof (cases "exec_rule_body (pending_exec_args m (current_pid t)) pth
                    (exec_policy_rules m (of_nat i))")
      case (Some v)
      then obtain rule where r: "exec_policy_rules m (of_nat i) = Some rule"
        by (cases "exec_policy_rules m (of_nat i)") auto
      with Some have "exec_rule_decision (pending_exec_args m (current_pid t)) pth rule = Some v"
        by (simp add: exec_rule_body_decision)
      then show ?thesis
        using True Some r
        by (subst exec_policy_loop.simps) (simp add: inspected_step [OF lt] map_filter_simps)
    next
      case None
      have "exec_policy_loop m t pth n i = exec_policy_loop m t pth n (i + 1)"
        using True None by (subst exec_policy_loop.simps) simp
      also have "\<dots> = (case List.map_filter (exec_rule_decision (pending_exec_args m (current_pid t)) pth)
             (List.map_filter (\<lambda>i. exec_policy_rules m (of_nat i)) [i + 1..<min n 64]) of
          v # _ \<Rightarrow> v | [] \<Rightarrow> exec_default m)"
        using "1.IH" True None by simp
      finally show ?thesis
        using None
        by (cases "exec_policy_rules m (of_nat i)")
           (simp_all add: inspected_step [OF lt] map_filter_simps exec_rule_body_decision)
    qed
  qed
qed

subsection \<open>A rule that decides nothing can be left out\<close>

lemma path_policy_loop_cong:
  assumes "\<And>j. path_rule_body pth op (policy_rules m' (of_nat j))
               = path_rule_body pth op (policy_rules m (of_nat j))"
    and "open_default m' = open_default m"
  shows "path_policy_loop m' pth op n i = path_policy_loop m pth op n i"
  using assms
proof (induction m pth op n i rule: path_policy_loop.induct)
  case (1 m pth op n i)
  show ?case
  proof (cases "i < 256 \<and> i < n")
    case False
    then show ?thesis
      using "1.prems"(2)
      by (subst path_policy_loop.simps, subst (2) path_policy_loop.simps) auto
  next
    case True
    show ?thesis
    proof (cases "path_rule_body pth op (policy_rules m (of_nat i))")
      case (Some v)
      then show ?thesis
        using True "1.prems"(1) [of i]
        by (subst path_policy_loop.simps, subst (2) path_policy_loop.simps) simp
    next
      case None
      then have "path_policy_loop m' pth op n (i + 1) = path_policy_loop m pth op n (i + 1)"
        using "1.IH" True "1.prems" by simp
      then show ?thesis
        using True None "1.prems"(1) [of i]
        by (subst path_policy_loop.simps, subst (2) path_policy_loop.simps) simp
    qed
  qed
qed

lemma open_rule_removed:
  assumes "policy_rules m k = Some rule"
    and "path_rule_body pth op (Some rule) = None"
  shows "check_path_policy (m\<lparr>policy_rules := (policy_rules m)(k := None)\<rparr>) pth op
           = check_path_policy m pth op"
proof -
  let ?m' = "m\<lparr>policy_rules := (policy_rules m)(k := None)\<rparr>"
  have body: "path_rule_body pth op (policy_rules ?m' (of_nat j))
               = path_rule_body pth op (policy_rules m (of_nat j))" for j
    using assms by (simp add: path_rule_body_def)
  have dflt: "open_default ?m' = open_default m"
    by (simp add: open_default_def)
  show ?thesis
    unfolding check_path_policy_def Let_def
    using path_policy_loop_cong [where m' = ?m' and m = m and pth = pth and op = op, OF body dflt] dflt
    by simp
qed

lemma exec_policy_loop_cong:
  assumes "\<And>j. exec_rule_body (pending_exec_args m' (current_pid t)) pth
                  (exec_policy_rules m' (of_nat j))
               = exec_rule_body (pending_exec_args m (current_pid t)) pth
                  (exec_policy_rules m (of_nat j))"
    and "exec_default m' = exec_default m"
  shows "exec_policy_loop m' t pth n i = exec_policy_loop m t pth n i"
  using assms
proof (induction m t pth n i rule: exec_policy_loop.induct)
  case (1 m t pth n i)
  show ?case
  proof (cases "i < n \<and> i < 64")
    case False
    then show ?thesis
      using "1.prems"(2)
      by (subst exec_policy_loop.simps, subst (2) exec_policy_loop.simps) auto
  next
    case True
    show ?thesis
    proof (cases "exec_rule_body (pending_exec_args m (current_pid t)) pth
                    (exec_policy_rules m (of_nat i))")
      case (Some v)
      then show ?thesis
        using True "1.prems"(1) [of i]
        by (subst exec_policy_loop.simps, subst (2) exec_policy_loop.simps) simp
    next
      case None
      then have "exec_policy_loop m' t pth n (i + 1) = exec_policy_loop m t pth n (i + 1)"
        using "1.IH" True "1.prems" by simp
      then show ?thesis
        using True None "1.prems"(1) [of i]
        by (subst exec_policy_loop.simps, subst (2) exec_policy_loop.simps) simp
    qed
  qed
qed

lemma exec_rule_removed:
  assumes "exec_policy_rules m k = Some rule"
    and "exec_rule_body (pending_exec_args m (current_pid t)) pth (Some rule) = None"
  shows "check_exec_policy (m\<lparr>exec_policy_rules := (exec_policy_rules m)(k := None)\<rparr>) t pth
           = check_exec_policy m t pth"
proof -
  let ?m' = "m\<lparr>exec_policy_rules := (exec_policy_rules m)(k := None)\<rparr>"
  have body: "exec_rule_body (pending_exec_args ?m' (current_pid t)) pth
                  (exec_policy_rules ?m' (of_nat j))
               = exec_rule_body (pending_exec_args m (current_pid t)) pth
                  (exec_policy_rules m (of_nat j))" for j
    using assms by simp
  have dflt: "exec_default ?m' = exec_default m"
    by (simp add: exec_default_def)
  show ?thesis
    unfolding check_exec_policy_def Let_def
    using exec_policy_loop_cong [where m' = ?m' and m = m and t = t and pth = pth, OF body dflt] dflt
    by simp
qed

lemma connect_rule_body_iff:
  "connect_rule_body ip port rp = Some v \<longleftrightarrow>
     (\<exists>rule. rp = Some rule \<and> \<not> connect_rule_skipped ip port rule \<and> v = sint (cr_action rule))"
  unfolding connect_rule_body_def connect_rule_skipped_def
  by (auto split: option.splits)

lemma connect_rule_body_None:
  "connect_rule_body ip port rp = None \<longleftrightarrow>
     (\<forall>rule. rp = Some rule \<longrightarrow> connect_rule_skipped ip port rule)"
  unfolding connect_rule_body_def connect_rule_skipped_def
  by (auto split: option.splits)

lemma connect_policy_loop_find:
  "connect_policy_loop m ip port num i =
     (case find (\<lambda>rule. \<not> connect_rule_skipped ip port rule)
             (List.map_filter (\<lambda>i. connect_policy_rules m (of_nat i)) [i..<min (unat num) 256]) of
        Some rule \<Rightarrow> sint (cr_action rule)
      | None \<Rightarrow> connect_default m)"
proof (induction m ip port num i rule: connect_policy_loop.induct)
  case (1 m ip port num i)
  show ?case
  proof (cases "i < 256 \<and> i < unat num")
    case False
    then show ?thesis
      by (subst connect_policy_loop.simps) (auto simp: map_filter_simps)
  next
    case True
    then have lt: "i < min (unat num) 256" by simp
    show ?thesis
    proof (cases "connect_rule_body ip port (connect_policy_rules m (of_nat i))")
      case (Some v)
      then obtain rule where r: "connect_policy_rules m (of_nat i) = Some rule"
          "\<not> connect_rule_skipped ip port rule" "v = sint (cr_action rule)"
        by (auto simp: connect_rule_body_iff)
      show ?thesis
        using True Some r
        by (subst connect_policy_loop.simps) (simp add: inspected_step [OF lt])
    next
      case None
      then have skip: "\<And>rule. connect_policy_rules m (of_nat i) = Some rule
                        \<Longrightarrow> connect_rule_skipped ip port rule"
        by (simp add: connect_rule_body_None)
      have "connect_policy_loop m ip port num i = connect_policy_loop m ip port num (i + 1)"
        using True None by (subst connect_policy_loop.simps) simp
      also have "\<dots> = (case find (\<lambda>rule. \<not> connect_rule_skipped ip port rule)
             (List.map_filter (\<lambda>i. connect_policy_rules m (of_nat i)) [i + 1..<min (unat num) 256]) of
          Some rule \<Rightarrow> sint (cr_action rule) | None \<Rightarrow> connect_default m)"
        using "1.IH" True None by simp
      finally show ?thesis
        using skip by (simp add: inspected_step [OF lt] split: option.splits)
    qed
  qed
qed

lemma positive_s32:
  assumes "0 < sint (num::u32)"
  shows "nat (sint num) = unat num"
proof -
  have "uint num = sint num mod 2 ^ 32"
    using uint_word_of_int [of "sint num", where ?'a = 32] by simp
  moreover have "sint num < 2 ^ 32"
    using sint_lt [of num] by simp
  ultimately have "uint num = sint num"
    using assms by simp
  then have "nat (sint num) = nat (uint num)" by simp
  then show ?thesis by simp
qed

lemma connect_matcher_present:
  assumes "connect_num_rules m = Some num"
  shows "check_connect_policy m ip port = connect_matcher_spec m (sint num) ip port"
proof (cases "sint num \<le> 0")
  case True
  then have "nat (min (sint num) 256) = 0" by simp
  with assms True show ?thesis
    by (simp add: check_connect_policy_def connect_matcher_spec_def inspected_def
        map_filter_simps connect_default_def)
next
  case False
  then have pos: "nat (sint num) = unat num"
    using positive_s32 [of num] by simp
  have "nat (min (sint num) 256) = min (nat (sint num)) 256"
    by simp
  then have "nat (min (sint num) 256) = min (unat num) 256"
    by (simp only: pos)
  with assms False show ?thesis
    unfolding check_connect_policy_def connect_matcher_spec_def inspected_def
      connect_policy_loop_find connect_default_def
    by simp
qed

subsection \<open>The matchers as first-match searches\<close>

lemma min_len64: "(len::u32) \<le> 64 \<Longrightarrow> min (unat len) 64 = unat len"
  by (simp add: word_le_nat_alt)

lemma open_rule_matches_bytes:
  "open_rule_matches pth op =
     (\<lambda>rule. path_len rule \<noteq> 0 \<and> path_len rule \<le> 64
        \<and> bytes_upto (min (unat (path_len rule)) 64) pth
            = bytes_upto (min (unat (path_len rule)) 64) (path rule)
        \<and> (operation rule = OP_OPEN \<or> operation rule = op))"
  by (rule ext) (auto simp: open_rule_matches_def path_prefix_matches_def min_len64)

lemma check_path_policy_find:
  "check_path_policy m pth op =
     (case find (open_rule_matches pth op)
             (inspected (policy_rules m)
                (min (case num_rules m of None \<Rightarrow> 0 | Some v \<Rightarrow> unat v) 256)) of
        Some rule \<Rightarrow> sint (action rule)
      | None \<Rightarrow> open_default m)"
proof (cases "num_rules m")
  case None
  then show ?thesis
    by (simp add: check_path_policy_def inspected_def map_filter_simps)
next
  case (Some n)
  show ?thesis
  proof (cases "n = 0")
    case True
    with Some show ?thesis
      by (simp add: check_path_policy_def inspected_def map_filter_simps)
  next
    case False
    with Some show ?thesis
      unfolding check_path_policy_def inspected_def Let_def
      by (simp only: option.case if_False clamp256 path_policy_loop_find)
  qed
qed

lemma exec_rule_decision_bytes:
  "exec_rule_decision pending_ptr pth =
     (\<lambda>rule. if xr_path_len rule \<noteq> 0 \<and> xr_path_len rule \<le> 64
            \<and> bytes_upto (min (unat (xr_path_len rule)) 64) pth
                = bytes_upto (min (unat (xr_path_len rule)) 64) (xr_path rule)
          then exec_args_decision pending_ptr rule else None)"
  by (rule ext)
     (auto simp: exec_rule_decision_def exec_args_decision_def path_prefix_matches_def min_len64)

lemma check_exec_policy_first:
  "check_exec_policy m t pth =
     (case List.map_filter (exec_rule_decision (pending_exec_args m (current_pid t)) pth)
             (inspected (exec_policy_rules m)
                (min (case exec_num_rules m of None \<Rightarrow> 0 | Some v \<Rightarrow> unat v) 64)) of
        v # _ \<Rightarrow> v
      | [] \<Rightarrow> exec_default m)"
proof (cases "exec_num_rules m")
  case None
  then show ?thesis
    by (simp add: check_exec_policy_def inspected_def map_filter_simps)
next
  case (Some n)
  show ?thesis
  proof (cases "n = 0")
    case True
    with Some show ?thesis
      by (simp add: check_exec_policy_def inspected_def map_filter_simps)
  next
    case False
    with Some show ?thesis
      unfolding check_exec_policy_def inspected_def Let_def
      by (simp only: option.case if_False clamp64 exec_policy_loop_first)
  qed
qed

section \<open>The open matcher\<close>

text \<open>
  Claim C6. The open matcher returns the action of the first inspected rule whose
  path prefix matches and whose operation is OPEN or equals the observed mode, where
  the observed mode is OPEN\_RW when the write bit of the file mode is set, else
  OPEN\_RO when the read bit is set, else OPEN; a rule whose path matches but whose
  operation does not is passed over; when no rule matches, the result is the value
  of the default-policy slot, or 0 (deny) when that slot is absent.
\<close>

theorem open_matcher_first_match:
  "check_path_policy m pth (get_file_operation_type f_mode)
     = open_matcher_spec m pth (observed_mode f_mode)"
proof (cases "num_rules m")
  case None
  then show ?thesis
    by (simp add: check_path_policy_def open_matcher_spec_def inspected_def map_filter_simps
        open_default_def)
next
  case (Some n)
  show ?thesis
  proof (cases "n = 0")
    case True
    with Some show ?thesis
      by (simp add: check_path_policy_def open_matcher_spec_def inspected_def map_filter_simps
          open_default_def)
  next
    case False
    with Some show ?thesis
      unfolding check_path_policy_def open_matcher_spec_def inspected_def Let_def
      by (simp only: option.case if_False clamp256 path_policy_loop_find
          get_file_operation_type_observed open_default_def)
  qed
qed


text \<open>
  Scenario E2: a read-only open of \<^verbatim>\<open>/var/log/syslog\<close> matches the path of the
  deny rule for writes but not its mode, and is allowed by default; a read-write
  open is denied.
\<close>

theorem open_matcher_first_match_witness:
  "check_path_policy log_maps ''/var/log/syslog'' (get_file_operation_type 1) = 1
   \<and> check_path_policy log_maps ''/var/log/syslog'' (get_file_operation_type 3) = 0"
proof -
  have "open_matcher_spec log_maps ''/var/log/syslog'' (observed_mode 1) = 1"
    and "open_matcher_spec log_maps ''/var/log/syslog'' (observed_mode 3) = 0"
    by code_simp+
  then show ?thesis
    by (simp only: open_matcher_first_match)
qed

section \<open>Path prefixes\<close>

text \<open>
  Claim C9. In the open and exec matchers a rule with \<open>path_len = 0\<close> or
  \<open>path_len > 64\<close> is ignored: the matcher gives the same result as on the maps
  without that rule. Each matcher is the first-match search over the inspected rules
  in which a rule takes part exactly when \<open>1 \<le> path_len \<le> 64\<close> and the first
  \<open>min(path_len, 64)\<close> bytes of the observed path and of the rule's path are equal,
  byte for byte; such a rule decides by its operation (open) or by its arguments
  (exec). The comparison function is non-zero exactly when those bytes are equal.
\<close>

theorem prefix_match_byte_exact:
  "(policy_rules m k = Some rule \<and> (path_len rule = 0 \<or> path_len rule > 64)
      \<longrightarrow> check_path_policy m pth op
            = check_path_policy (m\<lparr>policy_rules := (policy_rules m)(k := None)\<rparr>) pth op)
   \<and> (exec_policy_rules xm k = Some xrule \<and> (xr_path_len xrule = 0 \<or> xr_path_len xrule > 64)
      \<longrightarrow> check_exec_policy xm t pth
            = check_exec_policy (xm\<lparr>exec_policy_rules := (exec_policy_rules xm)(k := None)\<rparr>) t pth)
   \<and> check_path_policy m pth op =
       (case find (\<lambda>rule. path_len rule \<noteq> 0 \<and> path_len rule \<le> 64
                     \<and> bytes_upto (min (unat (path_len rule)) 64) pth
                         = bytes_upto (min (unat (path_len rule)) 64) (path rule)
                     \<and> (operation rule = OP_OPEN \<or> operation rule = op))
               (inspected (policy_rules m)
                  (min (case num_rules m of None \<Rightarrow> 0 | Some v \<Rightarrow> unat v) 256)) of
          Some rule \<Rightarrow> sint (action rule)
        | None \<Rightarrow> open_default m)
   \<and> check_exec_policy xm t pth =
       (case List.map_filter
               (\<lambda>rule. if xr_path_len rule \<noteq> 0 \<and> xr_path_len rule \<le> 64
                          \<and> bytes_upto (min (unat (xr_path_len rule)) 64) pth
                              = bytes_upto (min (unat (xr_path_len rule)) 64) (xr_path rule)
                        then exec_args_decision (pending_exec_args xm (current_pid t)) rule
                        else None)
               (inspected (exec_policy_rules xm)
                  (min (case exec_num_rules xm of None \<Rightarrow> 0 | Some v \<Rightarrow> unat v) 64)) of
          v # _ \<Rightarrow> v
        | [] \<Rightarrow> exec_default xm)
   \<and> (simple_string_starts_with pth rule_path len \<noteq> 0
        \<longleftrightarrow> bytes_upto (min (unat len) 64) pth = bytes_upto (min (unat len) 64) rule_path)"
proof -
  have open_ignored: "check_path_policy m pth op
      = check_path_policy (m\<lparr>policy_rules := (policy_rules m)(k := None)\<rparr>) pth op"
    if a: "policy_rules m k = Some rule \<and> (path_len rule = 0 \<or> path_len rule > 64)"
  proof -
    from a have "path_rule_body pth op (Some rule) = None"
      by (auto simp: path_rule_body_def)
    with a show ?thesis
      by (simp add: open_rule_removed)
  qed
  have exec_ignored: "check_exec_policy xm t pth
      = check_exec_policy (xm\<lparr>exec_policy_rules := (exec_policy_rules xm)(k := None)\<rparr>) t pth"
    if a: "exec_policy_rules xm k = Some xrule
      \<and> (xr_path_len xrule = 0 \<or> xr_path_len xrule > 64)"
  proof -
    from a have "exec_rule_body (pending_exec_args xm (current_pid t)) pth (Some xrule) = None"
      by (auto simp: exec_rule_body_def)
    with a show ?thesis
      by (simp add: exec_rule_removed)
  qed
  note open_matcher = check_path_policy_find [of m pth op, unfolded open_rule_matches_bytes]
  note exec_matcher = check_exec_policy_first [of xm t pth, unfolded exec_rule_decision_bytes]
  note bytes = simple_string_starts_with_iff [of pth rule_path len]
  from open_ignored exec_ignored open_matcher exec_matcher bytes show ?thesis
    by (intro conjI impI)
qed

text \<open>
  A deny-all rule of length 65 (open) or 0 (exec) leaves the default, allow. A deny
  rule of exactly 64 bytes denies a path that continues it, and not a path that
  differs from it in the 64th byte. \<^verbatim>\<open>/bin/\<close> is a prefix of \<^verbatim>\<open>/bin/ls\<close> and not of
  \<^verbatim>\<open>/Bin/ls\<close>; \<^verbatim>\<open>/etc\<close> is a prefix of \<^verbatim>\<open>/etc/passwd\<close> and not of \<^verbatim>\<open>/Etc/passwd\<close>.
\<close>

theorem prefix_match_byte_exact_witness:
  "check_path_policy long_maps ''/etc/passwd'' OP_OPEN_RO = 1
   \<and> check_exec_policy (exec_maps_with empty_len_rule Map.empty) demo_task ''/bin/ls'' = 1
   \<and> check_path_policy maps64 (path64 @ ''/x'') OP_OPEN_RO = 0
   \<and> check_path_policy maps64 (path64b @ ''/x'') OP_OPEN_RO = 1
   \<and> check_exec_policy (exec_maps_with bin_rule Map.empty) demo_task ''/bin/ls'' = 0
   \<and> check_exec_policy (exec_maps_with bin_rule Map.empty) demo_task ''/Bin/ls'' = 1
   \<and> simple_string_starts_with ''/etc/passwd'' ''/etc'' 4 \<noteq> 0
   \<and> simple_string_starts_with ''/Etc/passwd'' ''/etc'' 4 = 0"
proof -
  let ?xm = "exec_maps_with empty_len_rule Map.empty"
  let ?bm = "exec_maps_with bin_rule Map.empty"
  note ignored = prefix_match_byte_exact [where m = long_maps and k = 0 and rule = long_rule
      and pth = "''/etc/passwd''" and op = OP_OPEN_RO and xm = ?xm and xrule = empty_len_rule
      and t = demo_task and len = 4 and rule_path = "''/etc''"]
  note ignored_exec = prefix_match_byte_exact [where m = long_maps and k = 0
      and rule = long_rule and pth = "''/bin/ls''" and op = OP_OPEN_RO and xm = ?xm
      and xrule = empty_len_rule and t = demo_task and len = 4 and rule_path = "''/etc''"]
  note hit = prefix_match_byte_exact [where m = maps64 and pth = "path64 @ ''/x''"
      and op = OP_OPEN_RO and xm = ?bm and t = demo_task]
  note miss = prefix_match_byte_exact [where m = maps64 and pth = "path64b @ ''/x''"
      and op = OP_OPEN_RO and xm = ?bm and t = demo_task]
  note bin = prefix_match_byte_exact [where m = maps64 and pth = "''/bin/ls''"
      and op = OP_OPEN_RO and xm = ?bm and t = demo_task]
  note cap = prefix_match_byte_exact [where m = maps64 and pth = "''/Bin/ls''"
      and op = OP_OPEN_RO and xm = ?bm and t = demo_task]
  note upper = prefix_match_byte_exact [where m = long_maps and k = 0 and rule = long_rule
      and pth = "''/Etc/passwd''" and op = OP_OPEN_RO and xm = ?xm and xrule = empty_len_rule
      and t = demo_task and len = 4 and rule_path = "''/etc''"]
  have h1: "policy_rules long_maps 0 = Some long_rule
      \<and> (path_len long_rule = 0 \<or> path_len long_rule > 64)"
    by code_simp
  have e1: "check_path_policy (long_maps\<lparr>policy_rules := (policy_rules long_maps)(0 := None)\<rparr>)
      ''/etc/passwd'' OP_OPEN_RO = 1"
    by code_simp
  have h2: "exec_policy_rules ?xm 0 = Some empty_len_rule
      \<and> (xr_path_len empty_len_rule = 0 \<or> xr_path_len empty_len_rule > 64)"
    by code_simp
  have e2: "check_exec_policy (?xm\<lparr>exec_policy_rules := (exec_policy_rules ?xm)(0 := None)\<rparr>)
      demo_task ''/bin/ls'' = 1"
    by code_simp
  have c1: "check_path_policy long_maps ''/etc/passwd'' OP_OPEN_RO = 1"
    using ignored [THEN conjunct1] h1 e1 by simp
  have c2: "check_exec_policy ?xm demo_task ''/bin/ls'' = 1"
    using ignored_exec [THEN conjunct2, THEN conjunct1] h2 e2 by simp
  have c3: "check_path_policy maps64 (path64 @ ''/x'') OP_OPEN_RO = 0"
    unfolding hit [THEN conjunct2, THEN conjunct2, THEN conjunct1] by code_simp
  have c4: "check_path_policy maps64 (path64b @ ''/x'') OP_OPEN_RO = 1"
    unfolding miss [THEN conjunct2, THEN conjunct2, THEN conjunct1] by code_simp
  have c5: "check_exec_policy ?bm demo_task ''/bin/ls'' = 0"
    unfolding bin [THEN conjunct2, THEN conjunct2, THEN conjunct2, THEN conjunct1] by code_simp
  have c6: "check_exec_policy ?bm demo_task ''/Bin/ls'' = 1"
    unfolding cap [THEN conjunct2, THEN conjunct2, THEN conjunct2, THEN conjunct1] by code_simp
  have e7: "bytes_upto (min (unat (4::u32)) 64) ''/etc/passwd''
      = bytes_upto (min (unat (4::u32)) 64) ''/etc''"
    by code_simp
  have e8: "bytes_upto (min (unat (4::u32)) 64) ''/Etc/passwd''
      \<noteq> bytes_upto (min (unat (4::u32)) 64) ''/etc''"
    by code_simp
  have c7: "simple_string_starts_with ''/etc/passwd'' ''/etc'' 4 \<noteq> 0"
    using ignored [THEN conjunct2, THEN conjunct2, THEN conjunct2, THEN conjunct2] e7 by simp
  have c8: "simple_string_starts_with ''/Etc/passwd'' ''/etc'' 4 = 0"
    using upper [THEN conjunct2, THEN conjunct2, THEN conjunct2, THEN conjunct2] e8 by simp
  from c1 c2 c3 c4 c5 c6 c7 c8 show ?thesis
    by simp
qed

section \<open>The exec matcher\<close>

text \<open>
  Claim C7. The exec matcher returns the decision of the first inspected rule that
  decides, or the default. A rule whose path prefix matches decides as follows: with
  \<open>arg_count = 0\<close> it returns its action; a deny rule with \<open>arg_count > 0\<close> returns
  deny (0) when one of its first \<open>min(arg_count, 3)\<close> patterns equals one of the
  correlated arguments \<open>argv[1]\<close> up to, not including, \<open>argv[min(argc, 4)]\<close> on the first
  \<open>min(arg_lens[p], 16)\<close> bytes; an allow rule with \<open>arg_count > 0\<close> never decides.
\<close>

theorem exec_matcher_blacklist:
  "check_exec_policy m t pth = exec_matcher_spec m t pth"
proof (cases "exec_num_rules m")
  case None
  then show ?thesis
    by (simp add: check_exec_policy_def exec_matcher_spec_def inspected_def map_filter_simps
        exec_default_def)
next
  case (Some n)
  show ?thesis
  proof (cases "n = 0")
    case True
    with Some show ?thesis
      by (simp add: check_exec_policy_def exec_matcher_spec_def inspected_def map_filter_simps
          exec_default_def)
  next
    case False
    with Some show ?thesis
      unfolding check_exec_policy_def exec_matcher_spec_def inspected_def Let_def
      by (simp only: option.case if_False clamp64 exec_policy_loop_first exec_default_def)
  qed
qed


text \<open>
  Scenario E3: \<^verbatim>\<open>/bin/ls --color\<close> misses the blacklist and is allowed by default;
  \<^verbatim>\<open>/bin/ls --privileged\<close> is denied.
\<close>

theorem exec_matcher_blacklist_witness:
  "check_exec_policy (exec_maps_with priv_rule [77 \<mapsto> ls_args ''--color'']) demo_task ''/bin/ls'' = 1
   \<and> check_exec_policy (exec_maps_with priv_rule [77 \<mapsto> ls_args ''--privileged''])
        demo_task ''/bin/ls'' = 0"
proof -
  have "exec_matcher_spec (exec_maps_with priv_rule [77 \<mapsto> ls_args ''--color''])
          demo_task ''/bin/ls'' = 1"
    and "exec_matcher_spec (exec_maps_with priv_rule [77 \<mapsto> ls_args ''--privileged''])
          demo_task ''/bin/ls'' = 0"
    by code_simp+
  then show ?thesis
    by (simp only: exec_matcher_blacklist)
qed



section \<open>The connect matcher\<close>

text \<open>
  Claim C8. The connect matcher inspects the rules in index order over
  \<open>[0, min(num_rules, 256))\<close>, where \<open>num_rules\<close> is the value in the one slot of the
  array \<^verbatim>\<open>connect_num_rules\<close>; it skips a rule whose non-zero address or non-zero port
  differs from the observed one, and returns the action of the first rule not
  skipped; when no rule matches, the result is \<^verbatim>\<open>connect_default_policy[0]\<close>, or 0
  (deny) when that slot is absent. In particular a first rule with address 0 and
  port 0 decides every endpoint.
\<close>

theorem connect_matcher_first_match:
  "(connect_num_rules m = Some num
      \<longrightarrow> check_connect_policy m dest_ip dest_port
            = connect_matcher_spec m (sint num) dest_ip dest_port)
   \<and> (connect_num_rules m = Some num \<and> 0 < sint num \<and> connect_policy_rules m 0 = Some rule
       \<and> cr_dest_ip rule = 0 \<and> cr_dest_port rule = 0
      \<longrightarrow> check_connect_policy m dest_ip dest_port = sint (cr_action rule))"
proof -
  have first: "check_connect_policy m dest_ip dest_port
      = connect_matcher_spec m (sint num) dest_ip dest_port"
    if "connect_num_rules m = Some num"
    using that by (rule connect_matcher_present)
  have any: "check_connect_policy m dest_ip dest_port = sint (cr_action rule)"
    if a: "connect_num_rules m = Some num \<and> 0 < sint num \<and> connect_policy_rules m 0 = Some rule
       \<and> cr_dest_ip rule = 0 \<and> cr_dest_port rule = 0"
  proof -
    from a have "connect_rule_body dest_ip dest_port (connect_policy_rules m (of_nat 0))
        = Some (sint (cr_action rule))"
      by (simp add: connect_rule_body_def)
    moreover from a have pos: "0 < sint num"
      by simp
    then have "0 < nat (sint num)"
      by simp
    then have "0 < unat num"
      by (simp only: positive_s32 [OF pos])
    ultimately have "connect_policy_loop m dest_ip dest_port num 0 = sint (cr_action rule)"
      by (subst connect_policy_loop.simps) simp
    with a show ?thesis
      by (simp add: check_connect_policy_def)
  qed
  from first any show ?thesis
    by blast
qed

text \<open>
  Scenario E6: with one rule that allows port 443 and deny by default, a connection
  to 1.2.3.4:443 is allowed and one to 1.2.3.4:80 is denied. With one rule for any
  address and port that denies, the connection is denied although the default is
  allow.
\<close>

theorem connect_matcher_first_match_witness:
  "check_connect_policy (connect_maps_with 1 (Some 1) (Some 0)) 0x04030201 0xBB01 = 1
   \<and> check_connect_policy (connect_maps_with 1 (Some 1) (Some 0)) 0x04030201 0x5000 = 0
   \<and> check_connect_policy any_maps 0x04030201 0x5000 = 0"
proof -
  let ?m = "connect_maps_with 1 (Some 1) (Some 0)"
  have h: "connect_num_rules ?m = Some 1"
    by code_simp
  have e: "connect_matcher_spec ?m (sint (1::u32)) 0x04030201 0xBB01 = 1"
      "connect_matcher_spec ?m (sint (1::u32)) 0x04030201 0x5000 = 0"
    by code_simp+
  have a: "connect_num_rules any_maps = Some 1 \<and> 0 < sint (1::u32)
      \<and> connect_policy_rules any_maps 0 = Some any_rule
      \<and> cr_dest_ip any_rule = 0 \<and> cr_dest_port any_rule = 0"
    and v: "sint (cr_action any_rule) = 0"
    by code_simp+
  show ?thesis
    using h e a v
      connect_matcher_first_match [where m = ?m and num = 1 and dest_ip = "0x04030201"
        and dest_port = "0xBB01"]
      connect_matcher_first_match [where m = ?m and num = 1 and dest_ip = "0x04030201"
        and dest_port = "0x5000"]
      connect_matcher_first_match [where m = any_maps and num = 1 and dest_ip = "0x04030201"
        and dest_port = "0x5000" and rule = any_rule]
    by simp
qed

section \<open>The file\_open probe\<close>

subsection \<open>Namespace paths\<close>

lemma nsfs_prefix_loop_iff:
  "nsfs_prefix_loop pth pfx n i \<longleftrightarrow>
     (\<forall>k. i \<le> k \<and> k < min n 8 \<longrightarrow> byte_at pth k = byte_at pfx k)"
proof (induction pth pfx n i rule: nsfs_prefix_loop.induct)
  case (1 pth pfx prefix_len i)
  show ?case
  proof (cases "i < 8 \<and> i < prefix_len")
    case False
    then show ?thesis
      by (subst nsfs_prefix_loop.simps) auto
  next
    case True
    show ?thesis
    proof (cases "byte_at pth i = byte_at pfx i")
      case False
      with True show ?thesis
        by (subst nsfs_prefix_loop.simps) auto
    next
      case eq: True
      have "nsfs_prefix_loop pth pfx prefix_len i = nsfs_prefix_loop pth pfx prefix_len (i + 1)"
        using True eq by (subst nsfs_prefix_loop.simps) simp
      moreover have "(\<forall>k. i \<le> k \<and> k < min prefix_len 8 \<longrightarrow> byte_at pth k = byte_at pfx k)
          \<longleftrightarrow> (\<forall>k. i + 1 \<le> k \<and> k < min prefix_len 8 \<longrightarrow> byte_at pth k = byte_at pfx k)"
        using eq by (rule all_from_step [where P = "\<lambda>k. byte_at pth k = byte_at pfx k"])
      ultimately show ?thesis
        using "1.IH" True eq by simp
    qed
  qed
qed

lemma bracket_not_digit: "\<not> is_digit CHR '']''"
  by (simp add: is_digit_def)

lemma nsfs_digit_loop_digits:
  assumes "\<forall>j < k. is_digit (byte_at pth (digit_pos + i + j))"
    and "byte_at pth (digit_pos + i + k) = CHR '']''"
    and "found_digit \<or> 0 < k"
    and "i + k < 16" and "digit_pos + i + k < 256"
  shows "nsfs_digit_loop pth digit_pos found_digit i"
  using assms
proof (induction k arbitrary: i found_digit)
  case 0
  then show ?case
    by (subst nsfs_digit_loop.simps) (simp add: bracket_not_digit Let_def)
next
  case (Suc k)
  have d: "is_digit (byte_at pth (digit_pos + i))"
    using Suc.prems(1) by (metis add.right_neutral zero_less_Suc)
  have "nsfs_digit_loop pth digit_pos True (i + 1)"
  proof (rule Suc.IH)
    show "\<forall>j<k. is_digit (byte_at pth (digit_pos + (i + 1) + j))"
      using Suc.prems(1) by (metis Suc_less_eq add_Suc_right add_Suc_shift Suc_eq_plus1 add.assoc)
    show "byte_at pth (digit_pos + (i + 1) + k) = CHR '']''"
      using Suc.prems(2) by (simp add: add.assoc)
    show "True \<or> 0 < k" by simp
    show "i + 1 + k < 16" using Suc.prems(4) by simp
    show "digit_pos + (i + 1) + k < 256" using Suc.prems(5) by simp
  qed
  then show ?case
    using d Suc.prems(4,5)
    by (subst nsfs_digit_loop.simps) (simp add: Let_def)
qed

lemma nsfs_loop_iff:
  "nsfs_loop pth i \<longleftrightarrow> (\<exists>idx. i \<le> idx \<and> idx < 8 \<and> nsfs_hit pth idx)"
proof (induction pth i rule: nsfs_loop.induct)
  case (1 pth i)
  show ?case
  proof (cases "i < 8")
    case False
    then show ?thesis
      by (subst nsfs_loop.simps) auto
  next
    case True
    show ?thesis
    proof (cases "nsfs_hit pth i")
      case hit: True
      then have "nsfs_loop pth i"
        using True
        by (subst nsfs_loop.simps) (auto simp: nsfs_hit_def split: option.splits)
      moreover have "\<exists>idx. i \<le> idx \<and> idx < 8 \<and> nsfs_hit pth idx"
        using True hit by (intro exI [of _ i]) simp
      ultimately show ?thesis by simp
    next
      case miss: False
      then have "nsfs_loop pth i = nsfs_loop pth (i + 1)"
        using True
        by (subst nsfs_loop.simps) (auto simp: nsfs_hit_def split: option.splits)
      moreover have "nsfs_loop pth (i + 1) \<longleftrightarrow> (\<exists>idx. i + 1 \<le> idx \<and> idx < 8 \<and> nsfs_hit pth idx)"
        using "1.IH" True miss
        by (cases "nsfs_prefix i") (auto simp: nsfs_hit_def)
      moreover have "(\<exists>idx. i \<le> idx \<and> idx < 8 \<and> nsfs_hit pth idx)
          \<longleftrightarrow> (\<exists>idx. i + 1 \<le> idx \<and> idx < 8 \<and> nsfs_hit pth idx)"
        using miss by (rule ex_from_step [where P = "nsfs_hit pth"])
      ultimately show ?thesis by simp
    qed
  qed
qed

lemma nsfs_prefixes_table:
  "list_all (\<lambda>pfx. length pfx \<le> 8
      \<and> list_ex (\<lambda>idx. nsfs_prefix idx = Some (pfx, length pfx)) [0..<8]) nsfs_prefixes"
  by code_simp

lemma nsfs_prefixes_indexed:
  assumes "pfx \<in> set nsfs_prefixes"
  shows "length pfx \<le> 8" and "\<exists>idx < 8. nsfs_prefix idx = Some (pfx, length pfx)"
proof -
  from assms nsfs_prefixes_table
  have a: "length pfx \<le> 8
      \<and> (\<exists>idx\<in>set [0..<8]. nsfs_prefix idx = Some (pfx, length pfx))"
    unfolding list_all_iff list_ex_iff by blast
  then show "length pfx \<le> 8" by simp
  from a obtain idx where "idx \<in> set [0..<8]" "nsfs_prefix idx = Some (pfx, length pfx)"
    by blast
  then show "\<exists>idx < 8. nsfs_prefix idx = Some (pfx, length pfx)"
    by auto
qed

lemma nsfs_shaped_is_nsfs_path:
  assumes "nsfs_shaped pth pfx digits rest" and "length digits \<le> 15"
  shows "is_nsfs_path pth"
proof -
  from assms(1) have pth: "pth = pfx @ digits @ '']'' @ rest"
    and pfx: "pfx \<in> set nsfs_prefixes" and ne: "digits \<noteq> []"
    and dig: "list_all is_digit digits"
    by (simp_all add: nsfs_shaped_def)
  from pfx obtain idx where idx: "idx < 8" "nsfs_prefix idx = Some (pfx, length pfx)"
    using nsfs_prefixes_indexed(2) by blast
  from pfx have len: "length pfx \<le> 8"
    by (rule nsfs_prefixes_indexed(1))
  have "nsfs_prefix_loop pth pfx (length pfx) 0"
    by (simp add: nsfs_prefix_loop_iff byte_at_def pth nth_append)
  moreover have "nsfs_digit_loop pth (length pfx) False 0"
  proof (rule nsfs_digit_loop_digits [where k = "length digits"])
    show "\<forall>j<length digits. is_digit (byte_at pth (length pfx + 0 + j))"
      using dig by (simp add: byte_at_def pth nth_append list_all_length)
    show "byte_at pth (length pfx + 0 + length digits) = CHR '']''"
      by (simp add: byte_at_def pth nth_append)
    show "False \<or> 0 < length digits" using ne by simp
    show "0 + length digits < 16" using assms(2) by simp
    show "length pfx + 0 + length digits < 256" using assms(2) len by simp
  qed
  ultimately have "nsfs_hit pth idx"
    using idx by (simp add: nsfs_hit_def)
  with idx show ?thesis
    unfolding is_nsfs_path_def nsfs_loop_iff by auto
qed

text \<open>
  Claim C4, as amended. If the resolved path begins with one of the prefixes
  \<^verbatim>\<open>mnt:[\<close>, \<^verbatim>\<open>net:[\<close>, \<^verbatim>\<open>ipc:[\<close>, \<^verbatim>\<open>pid:[\<close>, \<^verbatim>\<open>uts:[\<close>, \<^verbatim>\<open>user:[\<close>, \<^verbatim>\<open>cgroup:[\<close>, \<^verbatim>\<open>time:[\<close>
  followed by at least one and at most 15 ASCII digits and then a closing bracket,
  the file\_open probe returns allow (0) and emits no event, whatever the rules and
  the default policy.
\<close>

theorem nsfs_bypass:
  "nsfs_shaped pth pfx digits rest \<and> length digits \<le> 15
   \<longrightarrow> is_nsfs_path pth \<and> lsm_open m t pth f_mode reserved = (0, None)"
proof
  assume "nsfs_shaped pth pfx digits rest \<and> length digits \<le> 15"
  then have "is_nsfs_path pth"
    using nsfs_shaped_is_nsfs_path by blast
  then show "is_nsfs_path pth \<and> lsm_open m t pth f_mode reserved = (0, None)"
    by (simp add: lsm_open_def)
qed

text \<open>
  Scenario E5: under a deny-all default the matcher would deny
  \<^verbatim>\<open>net:[4026532621]\<close>; the probe allows it and emits nothing.
\<close>

theorem nsfs_bypass_witness:
  "is_target_cgroup deny_maps demo_task
   \<and> verdict (check_path_policy deny_maps ''net:[4026532621]'' (get_file_operation_type 1)) = -13
   \<and> lsm_open deny_maps demo_task ''net:[4026532621]'' 1 True = (0, None)"
proof -
  have h: "nsfs_shaped ''net:[4026532621]'' ''net:['' ''4026532621'' []
      \<and> length ''4026532621'' \<le> 15"
    by code_simp
  have e: "is_target_cgroup deny_maps demo_task
      \<and> verdict (check_path_policy deny_maps ''net:[4026532621]'' (get_file_operation_type 1))
          = -13"
    by code_simp
  show ?thesis
    using h e nsfs_bypass [where pth = "''net:[4026532621]''" and pfx = "''net:[''"
        and digits = "''4026532621''" and rest = "[]" and m = deny_maps and t = demo_task
        and f_mode = 1 and reserved = True]
    by blast
qed

text \<open>
  Claim C4 as it is written fails on 16 digits: the scan looks at 16 bytes after
  the prefix and does not reach the bracket, so the path goes to the matcher, which
  denies it here, and an event is emitted.
\<close>

theorem nsfs_bypass_counterexample:
  "is_target_cgroup deny_maps demo_task
   \<and> nsfs_shaped ''net:[1234567890123456]'' ''net:['' ''1234567890123456'' []
   \<and> fst (lsm_open deny_maps demo_task ''net:[1234567890123456]'' 1 True) = -13
   \<and> map_option oe_result (snd (lsm_open deny_maps demo_task ''net:[1234567890123456]'' 1 True))
       = Some (-13)"
  by code_simp

subsection \<open>Package tools\<close>

lemma comm_loop_iff:
  "comm_loop cm expected bound len i \<longleftrightarrow>
     (\<forall>k. i \<le> k \<and> k < min len bound \<longrightarrow> byte_at cm k = byte_at expected k)"
proof (induction cm expected bound len i rule: comm_loop.induct)
  case (1 cm expected bound len i)
  show ?case
  proof (cases "i < bound \<and> i < len")
    case False
    then show ?thesis
      by (subst comm_loop.simps) auto
  next
    case True
    show ?thesis
    proof (cases "byte_at cm i = byte_at expected i")
      case False
      with True show ?thesis
        by (subst comm_loop.simps) auto
    next
      case eq: True
      have "comm_loop cm expected bound len i = comm_loop cm expected bound len (i + 1)"
        using True eq by (subst comm_loop.simps) simp
      moreover have "(\<forall>k. i \<le> k \<and> k < min len bound \<longrightarrow> byte_at cm k = byte_at expected k)
          \<longleftrightarrow> (\<forall>k. i + 1 \<le> k \<and> k < min len bound \<longrightarrow> byte_at cm k = byte_at expected k)"
        using eq by (rule all_from_step [where P = "\<lambda>k. byte_at cm k = byte_at expected k"])
      ultimately show ?thesis
        using "1.IH" True eq by simp
    qed
  qed
qed

lemma byte_at_prefix:
  assumes "prefix lit cm" and "k < length lit"
  shows "byte_at cm k = byte_at lit k"
proof -
  from assms(1) obtain r where "cm = lit @ r"
    by (auto simp: prefix_def)
  with assms(2) show ?thesis
    by (simp add: byte_at_def nth_append)
qed

lemma c_string_bytes:
  assumes "c_string cm = lit"
  shows "prefix lit cm" and "byte_at cm (length lit) = NUL"
proof -
  let ?r = "dropWhile (\<lambda>c. c \<noteq> NUL) cm"
  have cm: "cm = lit @ ?r"
    using assms by (metis c_string_def takeWhile_dropWhile_id)
  then show "prefix lit cm"
    by (metis prefixI)
  show "byte_at cm (length lit) = NUL"
  proof (cases "?r = []")
    case True
    with cm have "length cm = length lit" by simp
    then show ?thesis by (simp add: byte_at_def)
  next
    case False
    then have "hd ?r = NUL"
      using hd_dropWhile [of "\<lambda>c. c \<noteq> NUL" cm] by simp
    moreover have "cm ! length lit = hd ?r"
      using False cm by (metis hd_conv_nth nth_append_length_plus add.right_neutral)
    moreover have "length lit < length cm"
      using False cm by (metis length_append length_greater_0_conv less_add_same_cancel1)
    ultimately show ?thesis
      by (simp add: byte_at_def)
  qed
qed

lemma comm_override:
  assumes "c_string cm = ''apt-get'' \<or> prefix ''dpkg'' cm \<or> prefix ''update'' cm"
  shows "(comm_loop cm ''apt-get'' 8 7 0 \<and> byte_at cm 7 = NUL)
      \<or> comm_loop cm ''dpkg'' 5 4 0 \<or> comm_loop cm ''update'' 7 6 0"
  using assms
proof (elim disjE)
  assume a: "c_string cm = ''apt-get''"
  have "comm_loop cm ''apt-get'' 8 7 0"
    using byte_at_prefix [OF c_string_bytes(1) [OF a]] by (simp add: comm_loop_iff)
  moreover have "byte_at cm 7 = NUL"
    using c_string_bytes(2) [OF a] by (simp add: eval_nat_numeral)
  ultimately show ?thesis by simp
next
  assume "prefix ''dpkg'' cm"
  then have "comm_loop cm ''dpkg'' 5 4 0"
    using byte_at_prefix [of "''dpkg''" cm] by (simp add: comm_loop_iff)
  then show ?thesis by simp
next
  assume "prefix ''update'' cm"
  then have "comm_loop cm ''update'' 7 6 0"
    using byte_at_prefix [of "''update''" cm] by (simp add: comm_loop_iff)
  then show ?thesis by simp
qed

text \<open>
  Claim C3, as amended. In the file\_open probe running in a monitored cgroup, when
  the resolved path is not a namespace path and the ring-buffer reservation
  succeeds, whenever the task's comm equals \<^verbatim>\<open>apt-get\<close> exactly, or begins with
  \<^verbatim>\<open>dpkg\<close>, or begins with \<^verbatim>\<open>update\<close>, the value returned to the kernel is allow (0)
  whatever the rules and the default policy, and an event is emitted with result 0.
\<close>

theorem open_comm_override:
  "is_target_cgroup m t \<and> \<not> is_nsfs_path pth
   \<and> (c_string (comm t) = ''apt-get'' \<or> prefix ''dpkg'' (comm t) \<or> prefix ''update'' (comm t))
   \<longrightarrow> fst (lsm_open m t pth f_mode True) = 0
       \<and> (\<exists>event. snd (lsm_open m t pth f_mode True) = Some event \<and> oe_result event = 0)"
proof
  assume a: "is_target_cgroup m t \<and> \<not> is_nsfs_path pth
   \<and> (c_string (comm t) = ''apt-get'' \<or> prefix ''dpkg'' (comm t) \<or> prefix ''update'' (comm t))"
  then have "(comm_loop (comm t) ''apt-get'' 8 7 0 \<and> byte_at (comm t) 7 = NUL)
      \<or> comm_loop (comm t) ''dpkg'' 5 4 0 \<or> comm_loop (comm t) ''update'' 7 6 0"
    by (intro comm_override) simp
  with a show "fst (lsm_open m t pth f_mode True) = 0
       \<and> (\<exists>event. snd (lsm_open m t pth f_mode True) = Some event \<and> oe_result event = 0)"
    by (simp add: lsm_open_def Let_def verdict_def)
qed

text \<open>
  Scenario E7: deny by default, no rule; \<^verbatim>\<open>apt-get\<close> and \<^verbatim>\<open>dpkg-query\<close> open
  \<^verbatim>\<open>/anything\<close>.
\<close>

theorem open_comm_override_witness:
  "check_path_policy deny_maps ''/anything'' (get_file_operation_type 1) = 0
   \<and> fst (lsm_open deny_maps apt_task ''/anything'' 1 True) = 0
   \<and> map_option oe_result (snd (lsm_open deny_maps apt_task ''/anything'' 1 True)) = Some 0
   \<and> fst (lsm_open deny_maps dpkg_task ''/anything'' 1 True) = 0"
proof -
  have h: "is_target_cgroup deny_maps apt_task \<and> \<not> is_nsfs_path ''/anything''
      \<and> (c_string (comm apt_task) = ''apt-get'' \<or> prefix ''dpkg'' (comm apt_task)
          \<or> prefix ''update'' (comm apt_task))"
    by code_simp
  have h': "is_target_cgroup deny_maps dpkg_task \<and> \<not> is_nsfs_path ''/anything''
      \<and> (c_string (comm dpkg_task) = ''apt-get'' \<or> prefix ''dpkg'' (comm dpkg_task)
          \<or> prefix ''update'' (comm dpkg_task))"
    by code_simp
  have e: "check_path_policy deny_maps ''/anything'' (get_file_operation_type 1) = 0"
    by code_simp
  show ?thesis
    using e h h'
      open_comm_override [where m = deny_maps and t = apt_task and pth = "''/anything''"
        and f_mode = 1]
      open_comm_override [where m = deny_maps and t = dpkg_task and pth = "''/anything''"
        and f_mode = 1]
    by auto
qed

text \<open>
  Claim C3 as it is written fails on a namespace path: the probe returns before it
  reserves a record, so \<^verbatim>\<open>apt-get\<close> is allowed and no event is emitted.
\<close>

theorem open_comm_override_counterexample:
  "is_target_cgroup deny_maps apt_task \<and> c_string (comm apt_task) = ''apt-get''
   \<and> snd (lsm_open deny_maps apt_task ''net:[4026532621]'' 1 True) = None"
  by code_simp

section \<open>Ring-buffer reservation and the verdict\<close>

text \<open>
  The exec, connect and sendmsg probes return the same value whether the
  reservation succeeds or not; so does the open probe for a task that is not one of
  the package tools.
\<close>

lemma exec_verdict_reservation:
  "fst (lsm_exec m t pth reserved) = fst (lsm_exec m t pth reserved')"
  by (simp add: lsm_exec_def Let_def split: option.splits)

lemma connect_verdict_reservation:
  "fst (lsm_connect m t protocol family_read uaddr_read reserved)
     = fst (lsm_connect m t protocol family_read uaddr_read reserved')"
  "fst (lsm_sendmsg m t protocol msg_name_read family_read kaddr_read reserved)
     = fst (lsm_sendmsg m t protocol msg_name_read family_read kaddr_read reserved')"
  by (simp_all add: lsm_connect_def lsm_sendmsg_def process_network_event_def Let_def
      split: option.splits)

lemma open_verdict_reservation:
  assumes "\<not> ((comm_loop (comm t) ''apt-get'' 8 7 0 \<and> byte_at (comm t) 7 = NUL)
      \<or> comm_loop (comm t) ''dpkg'' 5 4 0 \<or> comm_loop (comm t) ''update'' 7 6 0)"
  shows "fst (lsm_open m t pth f_mode reserved) = fst (lsm_open m t pth f_mode reserved')"
  using assms by (auto simp: lsm_open_def Let_def)

text \<open>
  Claim C2. For every probe and fixed task state, maps and inputs, the value returned
  to the kernel when the ring-buffer reservation fails equals the value returned when
  it succeeds. The file\_open probe does not keep this: it tests the comm of the task
  only after a successful reservation, so under a deny-all default \<^verbatim>\<open>dpkg-query\<close> is
  allowed when the reservation succeeds and denied when it fails.
\<close>

theorem open_verdict_follows_reservation:
  "is_target_cgroup deny_maps dpkg_task
   \<and> fst (lsm_open deny_maps dpkg_task ''/etc/hosts'' 1 True) = 0
   \<and> fst (lsm_open deny_maps dpkg_task ''/etc/hosts'' 1 False) = -13"
  by code_simp

section \<open>The exec correlation channel\<close>

lemma trace_stores:
  assumes "is_exec_target_cgroup m0 t0" and "stored"
  shows "\<exists>pending. pending_exec_args (snd (trace_sys_enter_execve m0 t0 filename argv stored))
            (current_pid t0) = Some pending"
  using assms by (simp add: trace_sys_enter_execve_def Let_def)

lemma lsm_exec_consumes:
  assumes "is_exec_target_cgroup m t" and "pending_exec_args m (current_pid t) = Some pending"
  shows "\<exists>event. fst (snd (lsm_exec m t pth True)) = Some event
           \<and> xe_argc event = pa_argc pending
           \<and> xe_detailed_args event = detailed_args pending"
    and "pending_exec_args (snd (snd (lsm_exec m t pth True))) (current_pid t) = None"
  using assms by (simp_all add: lsm_exec_def Let_def)

lemma trace_frame:
  assumes "current_pid t \<noteq> pid"
  shows "pending_exec_args (snd (trace_sys_enter_execve m t filename argv stored)) pid
           = pending_exec_args m pid"
  using assms by (simp add: trace_sys_enter_execve_def Let_def)

lemma lsm_exec_frame:
  assumes "current_pid t \<noteq> pid"
  shows "pending_exec_args (snd (snd (lsm_exec m t pth reserved))) pid = pending_exec_args m pid"
  using assms by (simp add: lsm_exec_def Let_def split: option.splits)

text \<open>
  Claim C5, as amended. If the execve tracepoint fires for a PID in a monitored
  cgroup and stores its entry, and the exec hook then fires for the same PID in a
  monitored cgroup with that entry untouched in between, and the ring-buffer
  reservation succeeds, then the hook copies the entry's \<open>argc\<close> and
  \<open>detailed_args\<close> into the event it emits and deletes the entry from
  \<^verbatim>\<open>pending_exec_args\<close> before returning.
\<close>

theorem exec_correlation_consumed:
  "is_exec_target_cgroup m0 t0 \<and> stored
   \<and> m1 = snd (trace_sys_enter_execve m0 t0 filename argv stored)
   \<and> current_pid t = current_pid t0
   \<and> pending_exec_args m (current_pid t) = pending_exec_args m1 (current_pid t0)
   \<and> is_exec_target_cgroup m t
   \<longrightarrow> (\<exists>pending event.
          pending_exec_args m1 (current_pid t0) = Some pending
          \<and> fst (snd (lsm_exec m t pth True)) = Some event
          \<and> xe_argc event = pa_argc pending
          \<and> xe_detailed_args event = detailed_args pending)
       \<and> pending_exec_args (snd (snd (lsm_exec m t pth True))) (current_pid t) = None"
proof
  assume a: "is_exec_target_cgroup m0 t0 \<and> stored
   \<and> m1 = snd (trace_sys_enter_execve m0 t0 filename argv stored)
   \<and> current_pid t = current_pid t0
   \<and> pending_exec_args m (current_pid t) = pending_exec_args m1 (current_pid t0)
   \<and> is_exec_target_cgroup m t"
  then obtain pending where p: "pending_exec_args m1 (current_pid t0) = Some pending"
    using trace_stores [of m0 t0 stored filename argv] by auto
  from a have "pending_exec_args m (current_pid t) = pending_exec_args m1 (current_pid t0)"
    by blast
  then have q: "pending_exec_args m (current_pid t) = Some pending"
    using p by (rule trans)
  from a have mon: "is_exec_target_cgroup m t" by simp
  show "(\<exists>pending event.
          pending_exec_args m1 (current_pid t0) = Some pending
          \<and> fst (snd (lsm_exec m t pth True)) = Some event
          \<and> xe_argc event = pa_argc pending
          \<and> xe_detailed_args event = detailed_args pending)
       \<and> pending_exec_args (snd (snd (lsm_exec m t pth True))) (current_pid t) = None"
    using p lsm_exec_consumes [OF mon q, of pth] by blast
qed

text \<open>
  The tracepoint stores the two arguments of \<^verbatim>\<open>ls --color\<close> under PID 77; the hook
  reports them and leaves no entry.
\<close>

theorem exec_correlation_consumed_witness:
  "map_option pa_argc (pending_exec_args traced_maps 77) = Some 2
   \<and> map_option xe_argc (fst (snd (lsm_exec traced_maps demo_task ''/bin/ls'' True))) = Some 2
   \<and> map_option xe_detailed_args (fst (snd (lsm_exec traced_maps demo_task ''/bin/ls'' True)))
       = Some [''ls'', ''--color'', [], [], [], []]
   \<and> pending_exec_args (snd (snd (lsm_exec traced_maps demo_task ''/bin/ls'' True))) 77 = None"
proof -
  let ?m0 = "exec_maps_with priv_rule Map.empty"
  let ?argv = "Some [ArgStr ''ls'', ArgStr ''--color'', NullArg]"
  have h: "is_exec_target_cgroup ?m0 demo_task \<and> True
      \<and> traced_maps = snd (trace_sys_enter_execve ?m0 demo_task (Some ''/bin/ls'') ?argv True)
      \<and> current_pid demo_task = current_pid demo_task
      \<and> pending_exec_args traced_maps (current_pid demo_task)
          = pending_exec_args traced_maps (current_pid demo_task)
      \<and> is_exec_target_cgroup traced_maps demo_task"
    unfolding traced_maps_def by code_simp
  have pid: "current_pid demo_task = 77"
    by code_simp
  have e: "map_option pa_argc (pending_exec_args traced_maps 77) = Some 2"
      "map_option detailed_args (pending_exec_args traced_maps 77)
         = Some [''ls'', ''--color'', [], [], [], []]"
    by code_simp+
  show ?thesis
    using h e exec_correlation_consumed [where ?m0.0 = ?m0 and ?t0.0 = demo_task
        and stored = True and ?m1.0 = traced_maps and filename = "Some ''/bin/ls''"
        and argv = ?argv and t = demo_task and m = traced_maps and pth = "''/bin/ls''"]
    unfolding pid by auto
qed

text \<open>
  Claim C5 as it is written fails when the reservation fails: the hook returns
  before it looks the entry up, emits no event, and the entry stays.
\<close>

theorem exec_correlation_counterexample:
  "is_exec_target_cgroup traced_maps demo_task
   \<and> map_option pa_argc (pending_exec_args traced_maps 77) = Some 2
   \<and> fst (snd (lsm_exec traced_maps demo_task ''/bin/ls'' False)) = None
   \<and> map_option pa_argc
        (pending_exec_args (snd (snd (lsm_exec traced_maps demo_task ''/bin/ls'' False))) 77)
       = Some 2"
  by code_simp

section \<open>The cgroup scope gate\<close>

text \<open>
  The open and exec probes and the tracepoint return 0 and emit nothing unless the
  sentinel is non-zero and the current cgroup is in the allowed map with value 1;
  the connect and sendmsg probes do so unless the sentinel is non-zero and the
  current cgroup is in the allowed map, with any value.
\<close>

lemma open_scope_gate:
  assumes "target_cgroup m = None \<or> target_cgroup m = Some 0
      \<or> allowed_cgroups m (cgroup_id t) \<noteq> Some 1"
  shows "lsm_open m t pth f_mode reserved = (0, None)"
  using assms by (auto simp: lsm_open_def is_target_cgroup_def split: option.splits)

lemma exec_scope_gate:
  assumes "exec_target_cgroup m = None \<or> exec_target_cgroup m = Some 0
      \<or> exec_allowed_cgroups m (cgroup_id t) \<noteq> Some 1"
  shows "lsm_exec m t pth reserved = (0, None, m)"
    and "trace_sys_enter_execve m t filename argv stored = (0, m)"
  using assms
  by (auto simp: lsm_exec_def trace_sys_enter_execve_def is_exec_target_cgroup_def
      split: option.splits)

lemma connect_scope_gate:
  assumes "connect_target_cgroup m = None \<or> connect_target_cgroup m = Some 0
      \<or> connect_allowed_cgroups m (cgroup_id t) = None"
  shows "lsm_connect m t protocol family_read uaddr_read reserved = (0, None)"
    and "lsm_sendmsg m t protocol msg_name_read family_read kaddr_read reserved = (0, None)"
  using assms
  by (auto simp: lsm_connect_def lsm_sendmsg_def is_connect_target_cgroup_def
      split: option.splits)

text \<open>
  Claim C1. Every probe returns 0 and emits no event when the sentinel slot is
  missing or zero, or when the current cgroup id is not in the domain's allowed map
  with value 1. The connect and sendmsg probes do not keep this: they test only that
  the lookup in \<^verbatim>\<open>connect_allowed_cgroups\<close> hits, so with the value 0 stored for
  cgroup 42 a connection to 1.2.3.4:80 goes to the matcher, is denied by default,
  and is logged.
\<close>

theorem connect_gate_ignores_value:
  "connect_allowed_cgroups (connect_maps_with 0 (Some 1) (Some 0)) (cgroup_id demo_task) = Some 0
   \<and> fst (lsm_connect (connect_maps_with 0 (Some 1) (Some 0)) demo_task 6 (Some 2)
            (Some (addr_1234 0x5000)) True) = -13
   \<and> map_option ce_result
        (snd (lsm_connect (connect_maps_with 0 (Some 1) (Some 0)) demo_task 6 (Some 2)
               (Some (addr_1234 0x5000)) True)) = Some (-13)
   \<and> fst (lsm_sendmsg (connect_maps_with 0 (Some 1) (Some 0)) demo_task 17 (Some True) (Some 2)
            (Some (addr_1234 0x5000)) True) = -13"
  by code_simp

end
